theory Spec2Isabelle
  imports Main
begin

section \<open>Strings\<close>

text \<open>
  JavaScript strings are modelled as \<^typ>\<open>string\<close>, one \<^typ>\<open>char\<close> per code unit
  (code units up to 255). \<open>js_whitespace\<close> is the set removed by \<open>String.prototype.trim\<close>
  and matched by the regular expression class \<open>\s\<close>, restricted to these code units:
  tab, line feed, vertical tab, form feed, carriage return, space, no-break space.
\<close>

definition js_whitespace :: "char \<Rightarrow> bool" where
  "js_whitespace c =
     (c = CHR 0x09 \<or> c = CHR 0x0A \<or> c = CHR 0x0B \<or> c = CHR 0x0C \<or> c = CHR 0x0D
      \<or> c = CHR '' '' \<or> c = CHR 0xA0)"

definition js_trim :: "string \<Rightarrow> string" where
  "js_trim s = rev (dropWhile js_whitespace (rev (dropWhile js_whitespace s)))"

text \<open>\<open>parts.join(sep)\<close> of an array of strings.\<close>

fun js_join :: "string \<Rightarrow> string list \<Rightarrow> string" where
  "js_join sep [] = []"
| "js_join sep [x] = x"
| "js_join sep (x # y # ys) = x @ sep @ js_join sep (y # ys)"

section \<open>Streaming tag demultiplexer (\<open>processChunk\<close> in \<open>callLLM\<close> and \<open>callGemini\<close>)\<close>

text \<open>
  The closure variables of \<open>processChunk\<close> (main.ts lines 462-467 and 609-613) form the state;
  the calls of \<open>streamingCallback\<close> are returned as the list of emitted updates, in order.
  Both copies of \<open>processChunk\<close> (lines 485-520 and 615-650) are the same code.
\<close>

record stream_state =
  fullResponse :: string
  tagStack :: "string list"
  currentTagName :: string
  wordBuffer :: string
  insideTag :: bool

record StreamingUpdate =
  upd_field :: string
  upd_value :: string

definition init_stream :: stream_state where
  "init_stream = \<lparr>fullResponse = [], tagStack = [], currentTagName = [], wordBuffer = [],
     insideTag = False\<rparr>"

definition emit :: "string \<Rightarrow> string \<Rightarrow> StreamingUpdate" where
  "emit f v = \<lparr>upd_field = f, upd_value = v\<rparr>"

text \<open>One iteration of \<open>for (const char of chunk)\<close>.\<close>

definition processChar :: "stream_state \<Rightarrow> char \<Rightarrow> stream_state \<times> StreamingUpdate list" where
  "processChar st c =
    (if c = CHR ''<'' then
       (st\<lparr>wordBuffer := [], insideTag := True, currentTagName := []\<rparr>,
        if wordBuffer st \<noteq> [] \<and> tagStack st \<noteq> []
        then [emit (js_join ''_'' (tagStack st)) (wordBuffer st)] else [])
     else if c = CHR ''>'' \<and> insideTag st then
       (st\<lparr>insideTag := False,
           tagStack :=
             (if take 1 (currentTagName st) = ''/'' then butlast (tagStack st)
              else if js_trim (currentTagName st) \<noteq> []
                   then tagStack st @ [js_trim (currentTagName st)]
                   else tagStack st),
           currentTagName := [], wordBuffer := []\<rparr>, [])
     else if insideTag st then
       (st\<lparr>currentTagName := currentTagName st @ [c]\<rparr>, [])
     else if tagStack st \<noteq> [] then
       (if c = CHR '' '' \<or> c = CHR 0x0A then
          (st\<lparr>wordBuffer := []\<rparr>,
           (if wordBuffer st \<noteq> []
            then [emit (js_join ''_'' (tagStack st)) (wordBuffer st)] else [])
           @ [emit (js_join ''_'' (tagStack st)) [c]])
        else (st\<lparr>wordBuffer := wordBuffer st @ [c]\<rparr>, []))
     else (st, []))"

fun processChars :: "stream_state \<Rightarrow> string \<Rightarrow> stream_state \<times> StreamingUpdate list" where
  "processChars st [] = (st, [])"
| "processChars st (c # cs) =
     (let (st1, us1) = processChar st c; (st2, us2) = processChars st1 cs
      in (st2, us1 @ us2))"

definition processChunk :: "stream_state \<Rightarrow> string \<Rightarrow> stream_state \<times> StreamingUpdate list" where
  "processChunk st chunk = processChars (st\<lparr>fullResponse := fullResponse st @ chunk\<rparr>) chunk"


text \<open>The flush after the read loop: \<open>if (wordBuffer && tagStack.length > 0)\<close>.\<close>

definition finalFlush :: "stream_state \<Rightarrow> StreamingUpdate list" where
  "finalFlush st =
     (if wordBuffer st \<noteq> [] \<and> tagStack st \<noteq> []
      then [emit (js_join ''_'' (tagStack st)) (wordBuffer st)] else [])"


section \<open>Errors and numerals\<close>

text \<open>
  An exception is a value: \<open>Error msg\<close> is \<open>new Error(msg)\<close> thrown by the code under
  study; \<open>Thrown msg\<close> is an exception raised by a library or by the environment (a network
  failure, a JSON syntax error, a schema validation error, a failed transaction, a
  \<open>TypeError\<close>), with its description. A function that can throw returns
  \<open>js_error + 'a\<close>.
\<close>

datatype js_error = Error string | Thrown string

text \<open>\<open>String(n)\<close> of a non-negative integer: its decimal digits.\<close>

definition digit_char :: "nat \<Rightarrow> char" where
  "digit_char d = ''0123456789'' ! d"

function string_of_nat :: "nat \<Rightarrow> string" where
  "string_of_nat n =
     (if n < 10 then [digit_char n] else string_of_nat (n div 10) @ [digit_char (n mod 10)])"
  by pat_completeness auto
termination
  by (relation "measure id") auto

declare string_of_nat.simps [simp del]

section \<open>Payment retry (\<open>fetchWithPayment\<close>, main.ts lines 252-318)\<close>

text \<open>
  The environment of one call of \<open>fetchWithPayment\<close>: \<open>fetch n\<close> is the outcome of the
  \<open>n\<close>-th request the call makes (counting from 0), a response or a thrown network error;
  \<open>pay res\<close> is the outcome of the payment that a 402 response \<open>res\<close> triggers (lines
  277-309: reading the body as JSON, decoding the key, building, sending and confirming the
  transfer), \<open>None\<close> when every step succeeds and \<open>Some e\<close> when one of them throws \<open>e\<close>.
  The measuring wrapper around \<open>fetch\<close> is taken to return what \<open>fetch\<close> returns.
  The result is the outcome of the call and the number of requests made.
\<close>

record http_response =
  status :: nat
  body :: string

definition response_ok :: "http_response \<Rightarrow> bool" where
  "response_ok res = (200 \<le> status res \<and> status res \<le> 299)"

record solanaWallet =
  privateKey :: string
  rpcUrl :: "string option"

definition maxRetries :: nat where
  "maxRetries = 1"

function fetchLoop ::
  "solanaWallet option \<Rightarrow> (nat \<Rightarrow> js_error + http_response) \<Rightarrow>
   (http_response \<Rightarrow> js_error option) \<Rightarrow> nat \<Rightarrow> nat \<Rightarrow> (js_error + http_response) \<times> nat"
where
  "fetchLoop wallet fetch pay retries requests =
     (case fetch requests of
        Inl e \<Rightarrow> (Inl e, requests + 1)
      | Inr res \<Rightarrow>
          if response_ok res then (Inr res, requests + 1)
          else if status res \<noteq> 402 \<or> retries \<ge> maxRetries \<or> wallet = None then
            (Inl (Error (''Request failed: '' @ string_of_nat (status res) @ '' - '' @ body res)),
             requests + 1)
          else (case pay res of
                  Some e \<Rightarrow> (Inl e, requests + 1)
                | None \<Rightarrow> fetchLoop wallet fetch pay (retries + 1) (requests + 1)))"
  by pat_completeness auto
termination
  by (relation "measure (\<lambda>(wallet, fetch, pay, retries, requests). maxRetries - retries)") auto

declare fetchLoop.simps [simp del]

definition fetchWithPayment ::
  "solanaWallet option \<Rightarrow> (nat \<Rightarrow> js_error + http_response) \<Rightarrow>
   (http_response \<Rightarrow> js_error option) \<Rightarrow> (js_error + http_response) \<times> nat" where
  "fetchWithPayment wallet fetch pay = fetchLoop wallet fetch pay 0 0"

section \<open>Output schema and its validation (\<open>validateNoArrays\<close>, main.ts lines 979-998)\<close>

text \<open>
  The kinds of an Output Schema: the leaves string, number, boolean and enum, the wrappers
  optional and nullable, arrays, and objects, an object being the list of its entries
  (\<open>Object.entries(schema.shape)\<close>) in order. \<open>ZodOther\<close> is any other kind of the
  schema library (default, effects, union, record, tuple, ...), with its type name and the
  schemas it wraps; \<open>validateNoArrays\<close> does not look inside it.
\<close>

datatype zod =
    ZodString
  | ZodNumber
  | ZodBoolean
  | ZodEnum "string list"
  | ZodOptional zod
  | ZodNullable zod
  | ZodArray zod
  | ZodObject "(string \<times> zod) list"
  | ZodOther string "zod list"

text \<open>The loop \<open>while (typeName is ZodOptional or ZodNullable) currentSchema = currentSchema.unwrap()\<close>.\<close>

fun unwrap :: "zod \<Rightarrow> zod" where
  "unwrap (ZodOptional s) = unwrap s"
| "unwrap (ZodNullable s) = unwrap s"
| "unwrap s = s"

lemma size_unwrap: "size (unwrap s) \<le> size s"
  by (induction s rule: unwrap.induct) auto

definition array_error :: "string \<Rightarrow> string \<Rightarrow> js_error" where
  "array_error currentPath key =
     Error (''Arrays are not supported in output schema. Found array at path: '' @ currentPath
            @ ''. Use individual fields like '' @ key @ ''_1, '' @ key @ ''_2 instead.'')"

text \<open>
  \<open>validateNoArrays(schema, path)\<close>, the object schema given by its shape. The \<open>for\<close> loop
  over the entries is the recursion on the list; \<open>throw\<close> is \<open>Inl\<close>.
\<close>

function validateNoArrays :: "(string \<times> zod) list \<Rightarrow> string \<Rightarrow> js_error + unit" where
  "validateNoArrays [] path = Inr ()"
| "validateNoArrays ((key, fieldSchema) # rest) path =
     (let currentPath = (if path \<noteq> [] then path @ ''.'' @ key else key);
          currentSchema = unwrap fieldSchema
      in case currentSchema of
           ZodArray _ \<Rightarrow> Inl (array_error currentPath key)
         | ZodObject shape \<Rightarrow>
             (case validateNoArrays shape currentPath of
                Inl e \<Rightarrow> Inl e
              | Inr _ \<Rightarrow> validateNoArrays rest path)
         | _ \<Rightarrow> validateNoArrays rest path)"
  by pat_completeness auto
termination
  apply (relation "measure (\<lambda>(shape, path). size (ZodObject shape))")
    apply simp_all
  subgoal premises prems for key fieldSchema rest path x xa x8
    using size_unwrap[of fieldSchema] prems(2)[symmetric] by simp
  done

text \<open>
  The configuration of an agent: the model, the entries of the input schema each with its
  description (\<open>None\<close> when it has none), and the shape of the output schema. The
  constructor stores the configuration and validates the output schema; it is the only
  caller of \<open>validateNoArrays\<close>.
\<close>

record AgentConfig =
  llm :: string
  inputFormat :: "(string \<times> string option) list"
  outputFormat :: "(string \<times> zod) list"

datatype Agent = Agent AgentConfig

definition new_Agent :: "AgentConfig \<Rightarrow> js_error + Agent" where
  "new_Agent config =
     (case validateNoArrays (outputFormat config) [] of
        Inl e \<Rightarrow> Inl e
      | Inr _ \<Rightarrow> Inr (Agent config))"

text \<open>
  \<open>array_at shape p\<close>: following the field names \<open>p\<close> from the top of the schema, through
  nested objects and through optional and nullable wrappers, leads to an array.
\<close>

fun is_array :: "zod \<Rightarrow> bool" where
  "is_array (ZodArray _) = True"
| "is_array _ = False"

fun shape_of :: "zod \<Rightarrow> (string \<times> zod) list" where
  "shape_of (ZodObject shape) = shape"
| "shape_of _ = []"

fun array_at :: "(string \<times> zod) list \<Rightarrow> string list \<Rightarrow> bool" where
  "array_at shape [] = False"
| "array_at shape (k # ks) =
     list_ex (\<lambda>(key, fs). key = k \<and>
                (if ks = [] then is_array (unwrap fs) else array_at (shape_of (unwrap fs)) ks)) shape"

text \<open>The dotted path as \<open>validateNoArrays\<close> extends it: \<open>path ? `${path}.${key}` : key\<close>.\<close>

definition extend_path :: "string \<Rightarrow> string \<Rightarrow> string" where
  "extend_path path q = (if path \<noteq> [] then path @ ''.'' @ q else q)"

text \<open>Every field name, at every object level reached through the wrappers, is non-empty.\<close>

fun keys_nonempty :: "zod \<Rightarrow> bool" where
  "keys_nonempty (ZodObject shape) = list_all (\<lambda>(k, s). k \<noteq> [] \<and> keys_nonempty s) shape"
| "keys_nonempty (ZodOptional s) = keys_nonempty s"
| "keys_nonempty (ZodNullable s) = keys_nonempty s"
| "keys_nonempty _ = True"

section \<open>JavaScript values\<close>

text \<open>
  The values the codec and the pipeline handle. A number is represented by its canonical
  decimal text, the result of \<open>String(x)\<close> (\<open>12\<close>, \<open>0.5\<close>, \<open>-3\<close>, \<open>1e+21\<close>, \<open>NaN\<close>):
  \<open>String\<close> is one-to-one on numbers, so the text identifies the number, and no
  floating-point arithmetic is needed. An object is the list of its own properties in
  the order of \<open>Object.entries\<close>. Property names that JavaScript treats specially
  (\<open>__proto__\<close>, integer-like names, which are enumerated first) are not given a special
  treatment.
\<close>

datatype jsval =
    JUndefined
  | JNull
  | JBool bool
  | JNum string
  | JStr string
  | JArr "jsval list"
  | JObj "(string \<times> jsval) list"

text \<open>\<open>typeof v === "object"\<close>: true of \<open>null\<close>, arrays and objects.\<close>

fun typeof_object :: "jsval \<Rightarrow> bool" where
  "typeof_object JNull = True"
| "typeof_object (JArr _) = True"
| "typeof_object (JObj _) = True"
| "typeof_object _ = False"

text \<open>Truthiness, as tested by \<open>!v\<close>, \<open>v || d\<close> and \<open>v ? a : b\<close>.\<close>

fun js_truthy :: "jsval \<Rightarrow> bool" where
  "js_truthy JUndefined = False"
| "js_truthy JNull = False"
| "js_truthy (JBool b) = b"
| "js_truthy (JNum s) = (s \<noteq> ''0'' \<and> s \<noteq> ''NaN'')"
| "js_truthy (JStr s) = (s \<noteq> [])"
| "js_truthy (JArr _) = True"
| "js_truthy (JObj _) = True"

text \<open>
  \<open>String(v)\<close>. The codec applies it to primitives and to \<open>null\<close> only; for arrays and
  objects it gives the elements joined by commas and \<open>[object Object]\<close>.
\<close>

fun js_String :: "jsval \<Rightarrow> string" where
  "js_String JUndefined = ''undefined''"
| "js_String JNull = ''null''"
| "js_String (JBool b) = (if b then ''true'' else ''false'')"
| "js_String (JNum s) = s"
| "js_String (JStr s) = s"
| "js_String (JArr xs) =
     js_join '','' (map (\<lambda>x. if x = JUndefined \<or> x = JNull then [] else js_String x) xs)"
| "js_String (JObj _) = ''[object Object]''"

text \<open>
  Reading a property, \<open>v.k\<close>: a \<open>TypeError\<close> on \<open>undefined\<close> and \<open>null\<close>, the own
  property of an object, \<open>undefined\<close> when there is none. The names read by the code under
  study (\<open>relevant_servers\<close>, \<open>server_names\<close>, \<open>selected_tools\<close>, \<open>tool_names\<close>,
  \<open>selected_tool\<close>, \<open>parameters\<close>) are not properties of strings, numbers or booleans,
  nor of \<open>Object.prototype\<close>.
\<close>

definition js_get :: "jsval \<Rightarrow> string \<Rightarrow> js_error + jsval" where
  "js_get v k =
     (case v of
        JUndefined \<Rightarrow> Inl (Thrown ''TypeError: cannot read properties of undefined'')
      | JNull \<Rightarrow> Inl (Thrown ''TypeError: cannot read properties of null'')
      | JObj ps \<Rightarrow> Inr (case map_of ps k of Some x \<Rightarrow> x | None \<Rightarrow> JUndefined)
      | _ \<Rightarrow> Inr JUndefined)"

text \<open>Optional chaining, \<open>v?.k\<close>: \<open>undefined\<close> on \<open>undefined\<close> and \<open>null\<close>.\<close>

definition js_get_opt :: "jsval \<Rightarrow> string \<Rightarrow> jsval" where
  "js_get_opt v k =
     (case v of
        JObj ps \<Rightarrow> (case map_of ps k of Some x \<Rightarrow> x | None \<Rightarrow> JUndefined)
      | _ \<Rightarrow> JUndefined)"

text \<open>
  Assignment \<open>obj[k] = v\<close> to an object: an existing property keeps its place, a new one
  goes last.
\<close>

fun js_set :: "(string \<times> jsval) list \<Rightarrow> string \<Rightarrow> jsval \<Rightarrow> (string \<times> jsval) list" where
  "js_set [] k v = [(k, v)]"
| "js_set ((k', v') # ps) k v = (if k' = k then (k, v) # ps else (k', v') # js_set ps k v)"

section \<open>Markup codec: \<open>objToXml\<close> (main.ts lines 71-102)\<close>

definition is_letter :: "char \<Rightarrow> bool" where
  "is_letter c = (c \<in> set ''abcdefghijklmnopqrstuvwxyzABCDEFGHIJKLMNOPQRSTUVWXYZ'')"

definition is_digit :: "char \<Rightarrow> bool" where
  "is_digit c = (c \<in> set ''0123456789'')"

text \<open>The class \<open>[a-zA-Z0-9_]\<close>.\<close>

definition is_tag_char :: "char \<Rightarrow> bool" where
  "is_tag_char c = (is_letter c \<or> is_digit c \<or> c = CHR ''_'')"

text \<open>
  \<open>name.replace(/[^a-zA-Z0-9_]/g, "_").replace(/^[^a-zA-Z]/, "tag_$&")\<close>: the second
  replacement puts \<open>tag_\<close> before a first character that is not a letter and leaves the
  empty name alone.
\<close>

definition sanitizeTagName :: "string \<Rightarrow> string" where
  "sanitizeTagName name =
     (let replaced = map (\<lambda>c. if is_tag_char c then c else CHR ''_'') name
      in case replaced of
           [] \<Rightarrow> []
         | c # cs \<Rightarrow> if is_letter c then replaced else ''tag_'' @ replaced)"

definition wrapTag :: "string \<Rightarrow> string \<Rightarrow> string" where
  "wrapTag tag content =
     (let safeTag = sanitizeTagName tag
      in ''<'' @ safeTag @ ''>'' @ content @ ''</'' @ safeTag @ ''>'')"

text \<open>\<open>parentKey || d\<close>: the default also replaces the empty string.\<close>

definition key_or :: "string option \<Rightarrow> string \<Rightarrow> string" where
  "key_or parentKey d = (case parentKey of None \<Rightarrow> d | Some k \<Rightarrow> if k = [] then d else k)"

lemma size_entry:
  "(k, v) \<in> set ps \<Longrightarrow> size v < Suc (size_list (size_prod (\<lambda>x. 0) size) ps)"
  by (induction ps) auto

lemma size_item: "x \<in> set xs \<Longrightarrow> size x < Suc (size_list size xs)"
  by (induction xs) auto

text \<open>
  \<open>objToXml(obj, parentKey)\<close>; \<open>parentKey\<close> is \<open>None\<close> when the argument is omitted. The
  branches are those of the source, in its order: arrays, then objects (\<open>null\<close> is falsy and
  falls through), then everything else.
\<close>

function objToXml :: "jsval \<Rightarrow> string option \<Rightarrow> string" where
  "objToXml (JArr items) parentKey =
     wrapTag (case parentKey of None \<Rightarrow> ''array'' | Some k \<Rightarrow> k)
       (concat (map (\<lambda>item. wrapTag ''item''
                  (if typeof_object item then objToXml item None else js_String item)) items))"
| "objToXml (JObj ps) parentKey =
     (let entries = filter (\<lambda>(k, v). v \<noteq> JUndefined \<and> v \<noteq> JNull) ps
      in if entries = [] then wrapTag (key_or parentKey ''empty'') []
         else let content = concat (map (\<lambda>(key, v).
                      if typeof_object v then objToXml v (Some key)
                      else ''<'' @ key @ ''>'' @ js_String v @ ''</'' @ key @ ''>'') entries)
              in case parentKey of
                   None \<Rightarrow> content
                 | Some k \<Rightarrow> if k = [] then content else wrapTag k content)"
| "objToXml JUndefined parentKey = wrapTag (key_or parentKey ''value'') (js_String JUndefined)"
| "objToXml JNull parentKey = wrapTag (key_or parentKey ''value'') (js_String JNull)"
| "objToXml (JBool b) parentKey = wrapTag (key_or parentKey ''value'') (js_String (JBool b))"
| "objToXml (JNum s) parentKey = wrapTag (key_or parentKey ''value'') (js_String (JNum s))"
| "objToXml (JStr s) parentKey = wrapTag (key_or parentKey ''value'') (js_String (JStr s))"
  by pat_completeness auto
termination
  apply (relation "measure (\<lambda>(v, k). size v)")
    apply simp
   apply (simp add: size_item)
  apply (auto dest: size_entry)
  done

section \<open>Markup codec: \<open>xmlToObj\<close> (main.ts lines 105-135)\<close>

text \<open>
  The regular expression \<open>/<([^>\s/]+)(?:[^>]*)>(.*?)<\/\1>/gs\<close>, as the backtracking
  matcher runs it. A match starts at a \<open><\<close>. The name is a non-empty prefix of the longest
  run of characters other than \<open>>\<close>, white space and \<open>/\<close>, the longest prefix tried
  first; whatever the name, the opening tag ends at the first \<open>>\<close>, because \<open>[^>]*\<close>
  must be followed by \<open>>\<close>; the content is the shortest text followed by the closing tag
  of that name (\<open>.\<close> matches every character under the flag \<open>s\<close>).
\<close>

definition name_char :: "char \<Rightarrow> bool" where
  "name_char c = (c \<noteq> CHR ''>'' \<and> \<not> js_whitespace c \<and> c \<noteq> CHR ''/'')"

text \<open>The first occurrence of \<open>pat\<close> in a text: the text before it and the text after it.\<close>

fun find_sub :: "string \<Rightarrow> string \<Rightarrow> (string \<times> string) option" where
  "find_sub pat [] = (if pat = [] then Some ([], []) else None)"
| "find_sub pat (c # cs) =
     (if take (length pat) (c # cs) = pat then Some ([], drop (length pat) (c # cs))
      else map_option (\<lambda>(before, after). (c # before, after)) (find_sub pat cs))"

text \<open>The names of length \<open>n\<close>, \<open>n - 1\<close>, ..., 1, in the order the matcher tries them.\<close>

fun try_names :: "string \<Rightarrow> string \<Rightarrow> nat \<Rightarrow> (string \<times> string \<times> string) option" where
  "try_names run rest 0 = None"
| "try_names run rest (Suc n) =
     (case find_sub (''</'' @ take (Suc n) run @ ''>'') rest of
        Some (content, after) \<Rightarrow> Some (take (Suc n) run, content, after)
      | None \<Rightarrow> try_names run rest n)"

text \<open>
  A match of the expression right after a \<open><\<close>: the tag name, the content, and the text
  after the closing tag.
\<close>

definition match_tag :: "string \<Rightarrow> (string \<times> string \<times> string) option" where
  "match_tag s =
     (let run = takeWhile name_char s
      in case dropWhile (\<lambda>c. c \<noteq> CHR ''>'') s of
           [] \<Rightarrow> None
         | gt # rest \<Rightarrow> try_names run rest (length run))"

lemma find_sub_Some: "find_sub pat s = Some (a, b) \<Longrightarrow> s = a @ pat @ b"
proof (induction s arbitrary: a b)
  case Nil
  then show ?case by (simp split: if_splits)
next
  case (Cons c cs)
  show ?case
  proof (cases "take (length pat) (c # cs) = pat")
    case True
    then have "a = []" "b = drop (length pat) (c # cs)" using Cons.prems by simp_all
    then show ?thesis using True by (metis append_Nil append_take_drop_id)
  next
    case False
    then obtain a' where "find_sub pat cs = Some (a', b)" "a = c # a'"
      using Cons.prems by auto
    then show ?thesis using Cons.IH by simp
  qed
qed

lemma try_names_Some:
  "try_names run rest n = Some (name, content, after) \<Longrightarrow>
   rest = content @ ''</'' @ name @ ''>'' @ after"
  by (induction n) (auto split: option.splits dest: find_sub_Some)

lemma match_tag_length:
  assumes "match_tag s = Some (name, content, after)"
  shows "length after < length s" and "length content < length s"
proof -
  obtain gt rest where d: "dropWhile (\<lambda>c. c \<noteq> CHR ''>'') s = gt # rest"
    and t: "try_names (takeWhile name_char s) rest (length (takeWhile name_char s))
              = Some (name, content, after)"
    using assms by (auto simp: match_tag_def Let_def split: list.splits)
  have "length (dropWhile (\<lambda>c. c \<noteq> CHR ''>'') s) \<le> length s"
    by (rule length_dropWhile_le)
  then have r: "length rest < length s" using d by simp
  from try_names_Some[OF t] have "rest = content @ ''</'' @ name @ ''>'' @ after" by simp
  then have "length after < length rest" "length content < length rest" by simp_all
  then show "length after < length s" and "length content < length s" using r by simp_all
qed

text \<open>
  The loop \<open>while ((match = tagRegex.exec(content)) !== null)\<close>: under the flag \<open>g\<close> each
  search starts where the previous match ended, and finds the leftmost match.
\<close>

function scan_tags :: "string \<Rightarrow> (string \<times> string) list" where
  "scan_tags [] = []"
| "scan_tags (c # cs) =
     (if c = CHR ''<'' then
        (case match_tag cs of
           Some (name, content, after) \<Rightarrow> (name, content) # scan_tags after
         | None \<Rightarrow> scan_tags cs)
      else scan_tags cs)"
  by pat_completeness auto
termination
  by (relation "measure length") (auto dest: match_tag_length)

lemma scan_tags_length:
  "(name, content) \<in> set (scan_tags s) \<Longrightarrow> length content < length s"
proof (induction s rule: scan_tags.induct)
  case 1
  then show ?case by simp
next
  case (2 c cs)
  show ?case
  proof (cases "c = CHR ''<''")
    case False
    then show ?thesis using 2 by auto
  next
    case True
    show ?thesis
    proof (cases "match_tag cs")
      case None
      then show ?thesis using 2 True by auto
    next
      case (Some m)
      obtain n ct af where m: "m = (n, ct, af)" by (cases m)
      have l: "length af < length cs" "length ct < length cs"
        using match_tag_length Some m by blast+
      from "2.prems" True Some m
      consider "(name, content) = (n, ct)" | "(name, content) \<in> set (scan_tags af)" by auto
      then show ?thesis
      proof cases
        case 1
        then show ?thesis using l by simp
      next
        case 2
        then have "length content < length af" using "2.IH"(2) True Some m by auto
        then show ?thesis using l by simp
      qed
    qed
  qed
qed

lemma length_js_trim: "length (js_trim s) \<le> length s"
proof -
  have "length (js_trim s) = length (dropWhile js_whitespace (rev (dropWhile js_whitespace s)))"
    by (simp add: js_trim_def)
  also have "\<dots> \<le> length (rev (dropWhile js_whitespace s))" by (rule length_dropWhile_le)
  also have "\<dots> \<le> length s" by (simp add: length_dropWhile_le)
  finally show ?thesis .
qed

text \<open>The pattern \<open>/^\d+(\.\d+)?$/\<close>.\<close>

definition is_number_literal :: "string \<Rightarrow> bool" where
  "is_number_literal t =
     (let ip = takeWhile is_digit t; r = dropWhile is_digit t
      in ip \<noteq> [] \<and> (r = [] \<or> (hd r = CHR ''.'' \<and> tl r \<noteq> [] \<and> list_all is_digit (tl r))))"

text \<open>
  \<open>Number(t)\<close> for a text of that pattern, as the canonical decimal text of the value:
  leading zeros of the integer part and trailing zeros of the fraction are dropped. (For
  more digits than a double holds \<open>Number\<close> rounds, and from \<open>1e21\<close> on and below
  \<open>1e-6\<close> the canonical text has an exponent; the model keeps the digits as they are.)
\<close>

definition strip_leading_zeros :: "string \<Rightarrow> string" where
  "strip_leading_zeros ds =
     (case dropWhile (\<lambda>c. c = CHR ''0'') ds of [] \<Rightarrow> ''0'' | d # r \<Rightarrow> d # r)"

definition js_Number :: "string \<Rightarrow> jsval" where
  "js_Number t =
     (let ip = strip_leading_zeros (takeWhile is_digit t);
          fp = rev (dropWhile (\<lambda>c. c = CHR ''0'') (rev (drop 1 (dropWhile is_digit t))))
      in JNum (if fp = [] then ip else ip @ ''.'' @ fp))"

text \<open>The coercion of the trimmed content of a tag without nested markup.\<close>

definition coerce :: "string \<Rightarrow> jsval" where
  "coerce trimmedContent =
     (if trimmedContent = ''true'' \<or> trimmedContent = ''false''
      then JBool (trimmedContent = ''true'')
      else if is_number_literal trimmedContent then js_Number trimmedContent
      else JStr trimmedContent)"

text \<open>
  \<open>parseElement\<close>: \<open>result[tagName] = ...\<close> for the matches in order, a later match of the
  same name replacing the value of an earlier one.
\<close>

function parseElement :: "string \<Rightarrow> jsval" where
  "parseElement content0 =
     (let content = js_trim content0
      in if CHR ''<'' \<notin> set content then JStr content
         else let matches = scan_tags content
              in if matches = [] then JStr content
                 else JObj (foldl (\<lambda>result (tagName, v). js_set result tagName v) []
                        (map (\<lambda>(tagName, tagContent).
                              (tagName,
                               if CHR ''<'' \<in> set (js_trim tagContent)
                               then parseElement tagContent
                               else coerce (js_trim tagContent))) matches)))"
  by pat_completeness auto
termination
proof (relation "measure length", goal_cases)
  case 1
  show ?case by simp
next
  case (2 content0 content matches p tagName tagContent)
  then have "(tagName, tagContent) \<in> set (scan_tags (js_trim content0))" by simp
  then have "length tagContent < length (js_trim content0)"
    by (rule scan_tags_length)
  then show ?case using length_js_trim[of content0] by simp
qed

declare parseElement.simps [simp del]

definition xmlToObj :: "string \<Rightarrow> jsval" where
  "xmlToObj xmlContent = parseElement xmlContent"

section \<open>Trees for the round trip of the codec\<close>

text \<open>A key of the alphabet \<open>[A-Za-z0-9_]\<close> that starts with a letter.\<close>

definition valid_key :: "string \<Rightarrow> bool" where
  "valid_key k = (k \<noteq> [] \<and> is_letter (hd k) \<and> list_all is_tag_char k)"

text \<open>
  A tree whose internal nodes are plain objects and whose leaves are strings, numbers or
  booleans, without arrays, with valid keys, the keys of one object being distinct.
\<close>

fun plain_tree :: "jsval \<Rightarrow> bool" where
  "plain_tree (JObj ps) =
     (distinct (map fst ps) \<and> list_all (\<lambda>(k, v). valid_key k \<and> plain_tree v) ps)"
| "plain_tree (JStr s) = True"
| "plain_tree (JNum s) = True"
| "plain_tree (JBool b) = True"
| "plain_tree _ = False"

text \<open>Every key that occurs in a tree, at any depth.\<close>

fun deep_keys :: "jsval \<Rightarrow> string list" where
  "deep_keys (JObj ps) = concat (map (\<lambda>(k, v). k # deep_keys v) ps)"
| "deep_keys _ = []"

text \<open>
  What the decoder needs to give the tree back: every object has an entry; no key occurs
  again below itself; a string leaf has no \<open><\<close>, no white space at either end, and is
  read neither as a boolean nor as a number; a number leaf prints as plain decimal digits
  with an optional fraction (it is not negative and has no exponent).
\<close>

fun codec_safe :: "jsval \<Rightarrow> bool" where
  "codec_safe (JObj ps) =
     (ps \<noteq> [] \<and> list_all (\<lambda>(k, v). k \<notin> set (deep_keys v) \<and> codec_safe v) ps)"
| "codec_safe (JStr s) =
     (CHR ''<'' \<notin> set s \<and> js_trim s = s \<and> s \<noteq> ''true'' \<and> s \<noteq> ''false''
      \<and> \<not> is_number_literal s)"
| "codec_safe (JNum s) = (is_number_literal s \<and> js_Number s = JNum s)"
| "codec_safe _ = True"

text \<open>The text between the tags of a value: the entries of an object, the text of a leaf.\<close>

fun inner :: "jsval \<Rightarrow> string" where
  "inner (JObj ps) =
     concat (map (\<lambda>(k, v). ''<'' @ k @ ''>'' @ inner v @ ''</'' @ k @ ''>'') ps)"
| "inner v = js_String v"

text \<open>
  A text \<open>c\<close> that the search for \<open>pat\<close> passes over: wherever \<open>c\<close> is followed by \<open>u\<close>, the
  first occurrence of \<open>pat\<close> in \<open>c @ u\<close> is its first occurrence in \<open>u\<close>.
\<close>

definition skips :: "string \<Rightarrow> string \<Rightarrow> bool" where
  "skips pat c =
     (\<forall>u. find_sub pat (c @ u) = map_option (\<lambda>(a, b). (c @ a, b)) (find_sub pat u))"

section \<open>Tool orchestration: server and tool selection (main.ts lines 774-858)\<close>

record MCPServer =
  server_name :: string
  server_description :: string
  server_url :: string

record MCPTool =
  tool_name :: string
  tool_description :: string
  inputSchema :: jsval

text \<open>
  A call of the model is part of the environment: \<open>callLLM\<close> maps the messages (role and
  content) to the reply text, or to the exception the call throws. The empty text stands
  for an empty or missing reply.
\<close>

type_synonym message = "string \<times> string"

type_synonym llm_call = "message list \<Rightarrow> js_error + string"

definition server_selection_prompt :: string where
  "server_selection_prompt =
     ''You are analyzing user input to determine which servers might be relevant to fulfill the request. ''
     @ [CHR 0x0A] @ ''        Select only servers that are likely needed based on the input content.''"

definition tool_selection_prompt :: string where
  "tool_selection_prompt =
     ''You are selecting which tools from a server should be used to fulfill a user request.''
     @ [CHR 0x0A] @ ''        Select only tools that are necessary for the given input.''"

text \<open>
  The test of the filter,
  \<open>Array.isArray(names) ? names.includes(x) : names === x\<close>, for a string \<open>x\<close>.
\<close>

definition names_select :: "jsval \<Rightarrow> string \<Rightarrow> bool" where
  "names_select names x =
     (case names of JArr elems \<Rightarrow> JStr x \<in> set elems | _ \<Rightarrow> names = JStr x)"

text \<open>
  \<open>selectRelevantServers\<close>. \<open>servers\<close> is \<open>None\<close> when the configuration declares no
  list. An exception of \<open>callLLM\<close> is outside the \<open>try\<close> and leaves the function; inside
  the \<open>try\<close> only the property read \<open>parsed.relevant_servers\<close> can throw, and the
  \<open>catch\<close> returns the full list.
\<close>

definition selectRelevantServers ::
  "llm_call \<Rightarrow> MCPServer list option \<Rightarrow> jsval \<Rightarrow> js_error + MCPServer list" where
  "selectRelevantServers callLLM servers input =
     (case servers of
        None \<Rightarrow> Inr []
      | Some declared \<Rightarrow>
          if declared = [] then Inr []
          else
            let userPrompt = objToXml (JObj
                  [(''input'', input),
                   (''available_servers'',
                      JArr (map (\<lambda>s. JObj [(''name'', JStr (server_name s)),
                                            (''description'', JStr (server_description s))])
                             declared)),
                   (''task'',
                      JStr ''Select relevant server names that should be used to fulfill this request''),
                   (''response_format'',
                      JObj [(''relevant_servers'',
                              JObj [(''server_names'', JStr ''array of server names'')])])]) None
            in case callLLM [(''system'', server_selection_prompt),
                             (''user'', ''<request>'' @ userPrompt @ ''</request>'')] of
                 Inl e \<Rightarrow> Inl e
               | Inr response \<Rightarrow>
                   if response = [] then Inr declared
                   else
                     (case js_get (xmlToObj response) ''relevant_servers'' of
                        Inl e \<Rightarrow> Inr declared
                      | Inr relevant \<Rightarrow>
                          let found = js_get_opt relevant ''server_names'';
                              serverNames = (if js_truthy found then found else JArr [])
                          in Inr (filter (\<lambda>server. names_select serverNames (server_name server))
                                    declared)))"

text \<open>\<open>selectRelevantTools\<close>; \<open>tools.slice(0, 1)\<close> is \<open>take 1 tools\<close>.\<close>

definition selectRelevantTools ::
  "llm_call \<Rightarrow> jsval \<Rightarrow> MCPTool list \<Rightarrow> MCPServer \<Rightarrow> js_error + MCPTool list" where
  "selectRelevantTools callLLM input tools server =
     (if tools = [] then Inr []
      else
        let userPrompt = objToXml (JObj
              [(''input'', input),
               (''server'', JStr (server_name server)),
               (''available_tools'',
                  JArr (map (\<lambda>t. JObj [(''name'', JStr (tool_name t)),
                                        (''description'', JStr (tool_description t))]) tools)),
               (''task'', JStr ''Select tool names that should be invoked''),
               (''response_format'',
                  JObj [(''selected_tools'',
                          JObj [(''tool_names'', JStr ''array of tool names'')])])]) None
        in case callLLM [(''system'', tool_selection_prompt),
                         (''user'', ''<request>'' @ userPrompt @ ''</request>'')] of
             Inl e \<Rightarrow> Inl e
           | Inr response \<Rightarrow>
               if response = [] then Inr (take 1 tools)
               else
                 (case js_get (xmlToObj response) ''selected_tools'' of
                    Inl e \<Rightarrow> Inr (take 1 tools)
                  | Inr selected \<Rightarrow>
                      let found = js_get_opt selected ''tool_names'';
                          toolNames = (if js_truthy found then found else JArr [])
                      in Inr (filter (\<lambda>tool. names_select toolNames (tool_name tool)) tools)))"

section \<open>Response generation: the prompt (\<open>generateResponse\<close>, main.ts lines 910-928)\<close>

text \<open>
  \<open>JSON.stringify\<close>: \<open>None\<close> is the result \<open>undefined\<close>. A property whose value has no
  JSON text is left out of an object; such an element of an array is written \<open>null\<close>.
\<close>

definition hex_digit :: "nat \<Rightarrow> char" where
  "hex_digit d = ''0123456789abcdef'' ! d"

definition json_escape_char :: "char \<Rightarrow> string" where
  "json_escape_char c =
     (if c = CHR 0x22 then [CHR 0x5C, CHR 0x22]
      else if c = CHR 0x5C then [CHR 0x5C, CHR 0x5C]
      else if c = CHR 0x08 then [CHR 0x5C, CHR ''b'']
      else if c = CHR 0x0C then [CHR 0x5C, CHR ''f'']
      else if c = CHR 0x0A then [CHR 0x5C, CHR ''n'']
      else if c = CHR 0x0D then [CHR 0x5C, CHR ''r'']
      else if c = CHR 0x09 then [CHR 0x5C, CHR ''t'']
      else if (of_char c :: nat) < 32
        then [CHR 0x5C, CHR ''u'', CHR ''0'', CHR ''0'',
              hex_digit ((of_char c :: nat) div 16), hex_digit ((of_char c :: nat) mod 16)]
      else [c])"

definition json_quote :: "string \<Rightarrow> string" where
  "json_quote s = [CHR 0x22] @ concat (map json_escape_char s) @ [CHR 0x22]"

function JSON_stringify :: "jsval \<Rightarrow> string option" where
  "JSON_stringify JUndefined = None"
| "JSON_stringify JNull = Some ''null''"
| "JSON_stringify (JBool b) = Some (if b then ''true'' else ''false'')"
| "JSON_stringify (JNum s) =
     Some (if s = ''NaN'' \<or> s = ''Infinity'' \<or> s = ''-Infinity'' then ''null'' else s)"
| "JSON_stringify (JStr s) = Some (json_quote s)"
| "JSON_stringify (JArr xs) =
     Some (''['' @ js_join '','' (map (\<lambda>x. case JSON_stringify x of None \<Rightarrow> ''null''
                                                               | Some t \<Rightarrow> t) xs) @ '']'')"
| "JSON_stringify (JObj ps) =
     Some (''{'' @ js_join '',''
        (concat (map (\<lambda>(k, v). case JSON_stringify v of None \<Rightarrow> []
                                   | Some t \<Rightarrow> [json_quote k @ '':'' @ t]) ps)) @ ''}'')"
  by pat_completeness auto
termination
  apply (relation "measure size")
    apply simp
   apply (simp add: size_item)
  apply (auto dest: size_entry)
  done

text \<open>
  \<open>hasToolResults\<close> (lines 917-919): the bag of tool results has an entry, and some result
  is not \<open>null\<close>, not \<open>undefined\<close>, not the empty string, and is not serialised as \<open>{}\<close>.
\<close>

definition hasToolResults :: "(string \<times> jsval) list \<Rightarrow> bool" where
  "hasToolResults toolResults =
     (toolResults \<noteq> [] \<and>
      list_ex (\<lambda>(k, result). result \<noteq> JNull \<and> result \<noteq> JUndefined \<and> result \<noteq> JStr []
                 \<and> JSON_stringify result \<noteq> Some ''{}'') toolResults)"

text \<open>
  The object that becomes the prompt (lines 911-922); \<open>output_format\<close> and \<open>task\<close> are the
  values of \<open>getOutputFormatDescription()\<close> and \<open>generateTaskDescription()\<close>.
\<close>

definition response_request ::
  "jsval \<Rightarrow> jsval \<Rightarrow> string \<Rightarrow> (string \<times> jsval) list \<Rightarrow> (string \<times> jsval) list" where
  "response_request input output_format task toolResults =
     (let obj = [(''input'', input), (''output_format'', output_format), (''task'', JStr task)]
      in if hasToolResults toolResults
         then js_set obj ''context'' (JObj [(''tool_results'', JObj toolResults)])
         else obj)"

text \<open>The user message of the final generation call (lines 923 and 928).\<close>

definition response_user_message ::
  "jsval \<Rightarrow> jsval \<Rightarrow> string \<Rightarrow> (string \<times> jsval) list \<Rightarrow> message" where
  "response_user_message input output_format task toolResults =
     (''user'', ''<request>''
        @ objToXml (JObj (response_request input output_format task toolResults)) None
        @ ''</request>'')"

text \<open>
  A value read from JSON text, as \<open>response.json()\<close> gives it: no \<open>undefined\<close> anywhere, and
  a number that starts with a digit or a minus sign.
\<close>

fun is_json :: "jsval \<Rightarrow> bool" where
  "is_json JUndefined = False"
| "is_json JNull = True"
| "is_json (JBool b) = True"
| "is_json (JNum s) = (s \<noteq> [] \<and> (is_digit (hd s) \<or> hd s = CHR ''-''))"
| "is_json (JStr s) = True"
| "is_json (JArr xs) = list_all is_json xs"
| "is_json (JObj ps) = list_all (\<lambda>(k, v). is_json v) ps"

section \<open>The measuring wrapper\<close>

text \<open>
  Every stage of the pipeline runs inside \<open>measure(fn, description)\<close>, imported from
  \<open>@ments/utils\<close> or passed to \<open>run\<close> as \<open>measureFn\<close>; it is not part of the code under
  study. It runs the callback and returns its result. What it does with an exception of the
  callback is its policy: \<open>Rethrow\<close> lets the exception through, \<open>Swallow\<close> records it
  and returns \<open>null\<close> (\<open>None\<close> below).
\<close>

datatype measure_policy = Rethrow | Swallow

fun measured :: "measure_policy \<Rightarrow> js_error + 'a \<Rightarrow> js_error + 'a option" where
  "measured policy (Inr v) = Inr (Some v)"
| "measured Rethrow (Inl e) = Inl e"
| "measured Swallow (Inl e) = Inr None"

section \<open>Input-field resolution (\<open>resolveMCPInputFields\<close>, main.ts lines 672-771)\<close>

text \<open>
  The environment of a run. \<open>env_parse_input\<close> and \<open>env_parse_output\<close> are
  \<open>inputFormat.parse\<close> and \<open>outputFormat.parse\<close> of the schema library: the validated
  properties, or the validation error. \<open>env_discoverTools\<close> and \<open>env_invokeTool\<close> are the
  outcomes of the two requests to a capability server, as their caller sees them.
  \<open>env_stages\<close> is the outcome of lines 169-235 of \<open>run\<close> (server selection, tool
  discovery and invocation, response generation) for the resolved input: the value of
  \<open>response\<close>, or the exception thrown there. None of these writes to the input object.
\<close>

record run_env =
  env_parse_input :: "(string \<times> jsval) list \<Rightarrow> js_error + (string \<times> jsval) list"
  env_discoverTools :: "MCPServer \<Rightarrow> js_error + MCPTool list"
  env_callLLM :: llm_call
  env_invokeTool :: "MCPServer \<Rightarrow> string \<Rightarrow> jsval \<Rightarrow> js_error + jsval"
  env_stages :: "jsval \<Rightarrow> js_error + jsval"
  env_parse_output :: "jsval \<Rightarrow> js_error + jsval"

text \<open>
  The server address in a description: \<open>desc.startsWith("mcp:")\<close> and the first group of
  \<open>/^mcp:\s*(https?:\/\/[^\s]+)/\<close>.
\<close>

definition mcp_url :: "string \<Rightarrow> string option" where
  "mcp_url desc =
     (if take 4 desc \<noteq> ''mcp:'' then None
      else
        let rest = dropWhile js_whitespace (drop 4 desc);
            scheme = (if take 8 rest = ''https://'' then 8
                      else if take 7 rest = ''http://'' then 7 else 0);
            address = takeWhile (\<lambda>c. \<not> js_whitespace c) (drop scheme rest)
        in if scheme = 0 \<or> address = [] then None else Some (take scheme rest @ address))"

definition parameter_prompt :: string where
  "parameter_prompt =
     ''You are generating parameters for a tool invocation based on user input and tool specification.''
     @ [CHR 0x0A] @ ''        Generate appropriate parameters that match the tool''
     @ [CHR 0x27] @ ''s input schema.''"

text \<open>
  \<open>generateToolParameters\<close> (lines 861-897). Its body runs inside the measuring wrapper,
  so under \<open>Swallow\<close> a failed call of the model gives the parameters \<open>null\<close>.
\<close>

definition generateToolParameters ::
  "measure_policy \<Rightarrow> llm_call \<Rightarrow> jsval \<Rightarrow> MCPTool \<Rightarrow> js_error + jsval" where
  "generateToolParameters policy callLLM input tool =
     (let userPrompt = objToXml (JObj
            [(''input'', input),
             (''tool'', JObj [(''name'', JStr (tool_name tool)),
                              (''description'', JStr (tool_description tool)),
                              (''input_schema'', inputSchema tool)]),
             (''task'', JStr ''Generate parameters for this tool''),
             (''response_format'',
                JObj [(''parameters'', JStr ''object containing the tool parameters'')])]) None;
          outcome =
            (case callLLM [(''system'', parameter_prompt),
                           (''user'', ''<request>'' @ userPrompt @ ''</request>'')] of
               Inl e \<Rightarrow> Inl e
             | Inr response \<Rightarrow>
                 if response = [] then Inr (JObj [])
                 else (case js_get (xmlToObj response) ''parameters'' of
                         Inl e \<Rightarrow> Inr (JObj [])
                       | Inr found \<Rightarrow> Inr (if js_truthy found then found else JObj [])))
      in case measured policy outcome of
           Inl e \<Rightarrow> Inl e
         | Inr None \<Rightarrow> Inr JNull
         | Inr (Some parameters) \<Rightarrow> Inr parameters)"

definition field_resolution_prompt :: "string \<Rightarrow> string \<Rightarrow> string" where
  "field_resolution_prompt key desc =
     ''You are selecting the most appropriate tool from the available tools on the server to resolve the value for the input field ''
     @ [CHR 0x22] @ key @ [CHR 0x22] @ ''. '' @ [CHR 0x0A]
     @ ''      The field'' @ [CHR 0x27] @ ''s description is: '' @ [CHR 0x22] @ desc @ [CHR 0x22]
     @ ''.'' @ [CHR 0x0A]
     @ ''      Select only the single most relevant tool based on the field description, tool descriptions, and the provided user input.''
     @ [CHR 0x0A] @ ''      If no tool seems suitable, do not select any.''"

text \<open>
  One iteration of the loop of \<open>resolveMCPInputFields\<close>, up to the assignment: \<open>Inr None\<close>
  is \<open>continue\<close>, \<open>Inr (Some result)\<close> the value to assign, \<open>Inl e\<close> an exception.
  \<open>input\<close> is the current content of the input object.
\<close>

definition resolve_field ::
  "measure_policy \<Rightarrow> run_env \<Rightarrow> string \<Rightarrow> string option \<Rightarrow> jsval \<Rightarrow> js_error + jsval option"
where
  "resolve_field policy env key description input =
     (case description of
        None \<Rightarrow> Inr None
      | Some desc \<Rightarrow>
          (case mcp_url desc of
             None \<Rightarrow> Inr None
           | Some serverUrl \<Rightarrow>
               let tempServer = \<lparr>server_name = ''resolver_'' @ key,
                                 server_description =
                                   ''Temporary server for resolving input field '' @ key,
                                 server_url = serverUrl\<rparr>
               in case env_discoverTools env tempServer of
                    Inl e \<Rightarrow> Inl e
                  | Inr tools \<Rightarrow>
                      if tools = [] then Inr None
                      else
                        let userPrompt = objToXml (JObj
                              [(''resolve_field'', JStr key),
                               (''field_description'', JStr desc),
                               (''input'', input),
                               (''available_tools'',
                                  JArr (map (\<lambda>t. JObj [(''name'', JStr (tool_name t)),
                                                        (''description'', JStr (tool_description t)),
                                                        (''input_schema'', inputSchema t)]) tools)),
                               (''task'',
                                  JStr ''Select the tool name to invoke to resolve this field''),
                               (''response_format'',
                                  JObj [(''selected_tool'',
                                          JStr ''string: the name of the selected tool'')])]) None
                        in case env_callLLM env
                                  [(''system'', field_resolution_prompt key desc),
                                   (''user'', ''<request>'' @ userPrompt @ ''</request>'')] of
                             Inl e \<Rightarrow> Inl e
                           | Inr response \<Rightarrow>
                               if response = [] then Inr None
                               else
                                 (case js_get (xmlToObj response) ''selected_tool'' of
                                    Inl e \<Rightarrow> Inr None
                                  | Inr selectedToolName \<Rightarrow>
                                      if \<not> js_truthy selectedToolName then Inr None
                                      else
                                        (case find (\<lambda>t. JStr (tool_name t) = selectedToolName)
                                                tools of
                                           None \<Rightarrow> Inr None
                                         | Some tool \<Rightarrow>
                                             (case generateToolParameters policy (env_callLLM env)
                                                     input tool of
                                                Inl e \<Rightarrow> Inl e
                                              | Inr parameters \<Rightarrow>
                                                  (case env_invokeTool env tempServer
                                                          (tool_name tool) parameters of
                                                     Inl e \<Rightarrow> Inl e
                                                   | Inr result \<Rightarrow> Inr (Some result)))))))"

text \<open>
  Objects live in a store, a list of objects addressed by position, so that the caller's
  input object and the object that validation returns are told apart. Property values are
  immutable trees: the pipeline assigns to properties of the input object only.
  \<open>resolveMCPInputFields(input, ...)\<close> takes the address \<open>b\<close> of its argument; the
  assignment \<open>input[key] = result\<close> updates the object at \<open>b\<close>.
\<close>

type_synonym heap = "(string \<times> jsval) list list"

fun resolveMCPInputFields ::
  "measure_policy \<Rightarrow> run_env \<Rightarrow> (string \<times> string option) list \<Rightarrow> heap \<Rightarrow> nat
   \<Rightarrow> heap \<times> (js_error + unit)" where
  "resolveMCPInputFields policy env [] h b = (h, Inr ())"
| "resolveMCPInputFields policy env ((key, description) # rest) h b =
     (case resolve_field policy env key description (JObj (h ! b)) of
        Inl e \<Rightarrow> (h, Inl e)
      | Inr None \<Rightarrow> resolveMCPInputFields policy env rest h b
      | Inr (Some result) \<Rightarrow>
          resolveMCPInputFields policy env rest (h[b := js_set (h ! b) key result]) b)"

section \<open>The run (\<open>Agent.run\<close>, main.ts lines 147-250)\<close>

definition input_validation_failed :: js_error where
  "input_validation_failed =
     Error (''Input validation failed. Please check the provided input against the agent''
            @ [CHR 0x27] @ ''s input format.'')"

text \<open>
  The callback that \<open>run\<close> passes to the outermost wrapper. \<open>a\<close> is the address of the
  caller's input object. The schema library returns the validated properties as a new
  object, stored at the fresh address \<open>length h\<close>; the measured steps inside follow the
  policy of the wrapper's inner \<open>measure\<close>.
\<close>

definition run_body ::
  "measure_policy \<Rightarrow> run_env \<Rightarrow> AgentConfig \<Rightarrow> heap \<Rightarrow> nat \<Rightarrow> heap \<times> (js_error + jsval)" where
  "run_body policy env config h a =
     (case measured policy (env_parse_input env (h ! a)) of
        Inl e \<Rightarrow> (h, Inl e)
      | Inr None \<Rightarrow> (h, Inl input_validation_failed)
      | Inr (Some validatedInput) \<Rightarrow>
          let b = length h;
              (h2, resolved) =
                resolveMCPInputFields policy env (inputFormat config) (h @ [validatedInput]) b
          in case measured policy resolved of
               Inl e \<Rightarrow> (h2, Inl e)
             | Inr _ \<Rightarrow>
                 (case env_stages env (JObj (h2 ! b)) of
                    Inl e \<Rightarrow> (h2, Inl e)
                  | Inr response \<Rightarrow>
                      (case measured policy
                              (env_parse_output env
                                 (if js_truthy response then response else JObj [])) of
                         Inl e \<Rightarrow> (h2, Inl e)
                       | Inr None \<Rightarrow> (h2, Inr (JObj []))
                       | Inr (Some validatedResponse) \<Rightarrow>
                           (h2, Inr (if js_truthy validatedResponse then validatedResponse
                                     else JObj [])))))"

text \<open>
  \<open>run\<close>: the body inside the outermost wrapper, \<open>(measureFn || measure)(...)\<close>. The
  result \<open>Inl e\<close> is a rejected promise, \<open>Inr None\<close> a promise resolved with \<open>null\<close>,
  \<open>Inr (Some v)\<close> one resolved with \<open>v\<close>. The agent is one that the constructor returned.
\<close>

definition run ::
  "measure_policy \<Rightarrow> measure_policy \<Rightarrow> run_env \<Rightarrow> Agent \<Rightarrow> heap \<Rightarrow> nat
   \<Rightarrow> heap \<times> (js_error + jsval option)" where
  "run outer_policy inner_policy env agent h a =
     (case agent of Agent config \<Rightarrow>
        let (h', outcome) = run_body inner_policy env config h a
        in (h', measured outer_policy outcome))"

section \<open>An example environment\<close>

text \<open>
  An input schema with one tool-backed field, a capability server with one tool, a model
  that picks it, and a tool that answers \<open>Lisbon\<close>; every validation succeeds.
\<close>

definition demo_env :: run_env where
  "demo_env = \<lparr>
     env_parse_input = (\<lambda>ps. Inr ps),
     env_discoverTools =
       (\<lambda>server. Inr [\<lparr>tool_name = ''lookup'', tool_description = ''Find the city'',
                          inputSchema = JObj []\<rparr>]),
     env_callLLM = (\<lambda>messages. Inr ''<selected_tool>lookup</selected_tool>''),
     env_invokeTool = (\<lambda>server toolName parameters. Inr (JStr ''Lisbon'')),
     env_stages = (\<lambda>input. Inr (JObj [(''answer'', JStr ''sunny'')])),
     env_parse_output = (\<lambda>response. Inr response)\<rparr>"

section \<open>Properties of the streaming tag demultiplexer\<close>

lemma processChars_append:
  "processChars st (a @ b) =
     (let (s1, u1) = processChars st a; (s2, u2) = processChars s1 b in (s2, u1 @ u2))"
  by (induction a arbitrary: st) (auto split: prod.splits)

lemma processChar_in_tag:
  "insideTag st \<Longrightarrow> c \<noteq> CHR ''<'' \<Longrightarrow> c \<noteq> CHR ''>'' \<Longrightarrow>
   processChar st c = (st\<lparr>currentTagName := currentTagName st @ [c]\<rparr>, [])"
  by (simp add: processChar_def)

lemma processChars_tag_name:
  "insideTag st \<Longrightarrow> CHR ''<'' \<notin> set n \<Longrightarrow> CHR ''>'' \<notin> set n \<Longrightarrow>
   processChars st n = (st\<lparr>currentTagName := currentTagName st @ n\<rparr>, [])"
proof (induction n arbitrary: st)
  case Nil
  then show ?case by simp
next
  case (Cons c n)
  have c: "c \<noteq> CHR ''<''" "c \<noteq> CHR ''>''" using Cons.prems by auto
  have step: "processChar st c = (st\<lparr>currentTagName := currentTagName st @ [c]\<rparr>, [])"
    using Cons.prems(1) c by (rule processChar_in_tag)
  have "processChars (st\<lparr>currentTagName := currentTagName st @ [c]\<rparr>) n =
        (st\<lparr>currentTagName := currentTagName st @ [c]\<rparr>
           \<lparr>currentTagName := currentTagName (st\<lparr>currentTagName := currentTagName st @ [c]\<rparr>) @ n\<rparr>, [])"
    using Cons.prems by (intro Cons.IH) auto
  then show ?case using step by simp
qed



lemma processChar_lt:
  "processChar st CHR ''<'' =
     (st\<lparr>wordBuffer := [], insideTag := True, currentTagName := []\<rparr>, finalFlush st)"
  by (simp add: processChar_def finalFlush_def)

lemma processChar_gt:
  "insideTag st \<Longrightarrow> processChar st CHR ''>'' =
     (st\<lparr>insideTag := False,
         tagStack := (if take 1 (currentTagName st) = ''/'' then butlast (tagStack st)
              else if js_trim (currentTagName st) \<noteq> []
                   then tagStack st @ [js_trim (currentTagName st)]
                   else tagStack st),
         currentTagName := [], wordBuffer := []\<rparr>, [])"
  by (simp add: processChar_def)

lemma process_tag:
  assumes "CHR ''<'' \<notin> set n" "CHR ''>'' \<notin> set n"
  shows "processChars st (''<'' @ n @ ''>'') =
     (st\<lparr>insideTag := False,
         tagStack := (if take 1 n = ''/'' then butlast (tagStack st)
              else if js_trim n \<noteq> [] then tagStack st @ [js_trim n] else tagStack st),
         currentTagName := [], wordBuffer := []\<rparr>, finalFlush st)"
proof -
  let ?s1 = "st\<lparr>wordBuffer := [], insideTag := True, currentTagName := []\<rparr>"
  have a: "processChars ?s1 n = (?s1\<lparr>currentTagName := currentTagName ?s1 @ n\<rparr>, [])"
    using assms by (intro processChars_tag_name) simp_all
  have g: "processChar (?s1\<lparr>currentTagName := currentTagName ?s1 @ n\<rparr>) CHR ''>'' =
     (st\<lparr>insideTag := False,
         tagStack := (if take 1 n = ''/'' then butlast (tagStack st)
              else if js_trim n \<noteq> [] then tagStack st @ [js_trim n] else tagStack st),
         currentTagName := [], wordBuffer := []\<rparr>, [])"
    by (subst processChar_gt) simp_all
  have c: "processChars ?s1 (n @ ''>'') =
     (st\<lparr>insideTag := False,
         tagStack := (if take 1 n = ''/'' then butlast (tagStack st)
              else if js_trim n \<noteq> [] then tagStack st @ [js_trim n] else tagStack st),
         currentTagName := [], wordBuffer := []\<rparr>, [])"
    by (simp only: processChars_append a g processChars.simps Let_def prod.case append_Nil)
  have "processChars st (''<'' @ n @ ''>'') =
      (let (s2, u2) = processChars ?s1 (n @ ''>'') in (s2, finalFlush st @ u2))"
    by (simp add: processChar_lt)
  then show ?thesis by (simp only: c Let_def prod.case append_Nil2)
qed

text \<open>
  Claim C10. The demultiplexer is a total function of the state and the character: the source
  has no \<open>throw\<close> in \<open>processChunk\<close>, so the model has no error value. A tag whose name
  begins with \<open>/\<close> pops the active-tag stack whatever the rest of its name is, whether or
  not it matches the tag opened last; when the stack is empty the pop leaves it empty
  (\<open>[].pop()\<close> returns \<open>undefined\<close> and changes nothing). The only update emitted while the
  closing tag is read is the flush of the pending word.
\<close>

theorem closing_tag_pops:
  assumes "CHR ''<'' \<notin> set name" "CHR ''>'' \<notin> set name"
  shows "tagStack (fst (processChunk st (''</'' @ name @ ''>''))) = butlast (tagStack st)
       \<and> (tagStack st = [] \<longrightarrow> tagStack (fst (processChunk st (''</'' @ name @ ''>''))) = [])
       \<and> snd (processChunk st (''</'' @ name @ ''>'')) = finalFlush st"
proof -
  have n: "CHR ''<'' \<notin> set (''/'' @ name)" "CHR ''>'' \<notin> set (''/'' @ name)"
    using assms by simp_all
  have "''</'' @ name @ ''>'' = ''<'' @ (''/'' @ name) @ ''>''" by simp
  then show ?thesis
    unfolding processChunk_def
    by (simp only: process_tag[OF n]) (simp add: finalFlush_def)
qed










theorem closing_tag_pops_witness:
  "CHR ''<'' \<notin> set ''other'' \<and> CHR ''>'' \<notin> set ''other''
   \<and> tagStack (fst (processChunk (init_stream\<lparr>tagStack := [''answer'']\<rparr>) (''</'' @ ''other'' @ ''>''))) = butlast [''answer'']
   \<and> tagStack (fst (processChunk init_stream (''</'' @ ''other'' @ ''>''))) = []"
  using closing_tag_pops[of "''other''" "init_stream\<lparr>tagStack := [''answer'']\<rparr>"]
        closing_tag_pops[of "''other''" "init_stream"]
  by (simp add: init_stream_def)




section \<open>Properties of the payment retry\<close>

lemma string_of_nat_402: "string_of_nat 402 = ''402''"
  by (simp add: string_of_nat.simps digit_char_def)

lemma fetchLoop_requests: "snd (fetchLoop wallet fetch pay retries requests) \<le> requests + 1 + (maxRetries - retries)"
proof (induction wallet fetch pay retries requests rule: fetchLoop.induct)
  case (1 wallet fetch pay retries requests)
  show ?case
    apply (subst fetchLoop.simps)
    using 1
    apply (auto split: sum.splits option.splits)
    done
qed

text \<open>
  Claim C4 (as amended). When every request is answered with HTTP 402: with a wallet configured
  and the payment triggered by the first 402 succeeding, exactly 2 requests are made (the
  original and one retry) and the call fails with \<open>Request failed: 402 - \<close> followed by the
  body of the second response; with no wallet configured the call fails after 1 request with
  the body of the first response. Whatever the endpoint and the payment do, no call makes
  more than 2 requests (the loop is a total function, its termination proved above).
\<close>

theorem payment_retry_bound:
  assumes "\<forall>n. status (r n) = 402"
  shows "(pay (r 0) = None \<longrightarrow>
           fetchWithPayment (Some w) (\<lambda>n. Inr (r n)) pay =
             (Inl (Error (''Request failed: 402 - '' @ body (r 1))), 2))
       \<and> fetchWithPayment None (\<lambda>n. Inr (r n)) pay =
             (Inl (Error (''Request failed: 402 - '' @ body (r 0))), 1)
       \<and> (\<forall>wallet fetch' pay'. snd (fetchWithPayment wallet fetch' pay') \<le> 2)"
proof -
  have nok: "\<And>n. \<not> response_ok (r n)" using assms by (simp add: response_ok_def)
  have a: "pay (r 0) = None \<Longrightarrow> fetchWithPayment (Some w) (\<lambda>n. Inr (r n)) pay =
             (Inl (Error (''Request failed: 402 - '' @ body (r 1))), 2)"
    unfolding fetchWithPayment_def
    apply (subst fetchLoop.simps)
    apply (simp add: nok assms maxRetries_def)
    apply (subst fetchLoop.simps)
    apply (simp add: nok assms maxRetries_def string_of_nat_402)
    done
  have b: "fetchWithPayment None (\<lambda>n. Inr (r n)) pay =
             (Inl (Error (''Request failed: 402 - '' @ body (r 0))), 1)"
    unfolding fetchWithPayment_def
    apply (subst fetchLoop.simps)
    apply (simp add: nok assms maxRetries_def string_of_nat_402)
    done
  have c: "\<And>wallet fetch' pay'. snd (fetchWithPayment wallet fetch' pay') \<le> 2"
    unfolding fetchWithPayment_def
  proof -
    fix wallet fetch' pay'
    show "snd (fetchLoop wallet fetch' pay' 0 0) \<le> 2"
      using fetchLoop_requests[of wallet fetch' pay' 0 0] by (simp add: maxRetries_def)
  qed
  show ?thesis using a b c by blast
qed

theorem payment_retry_bound_witness:
  "(\<forall>n. status ((\<lambda>n. \<lparr>status = 402, body = ''{}''\<rparr>) n) = 402) \<and>
   fetchWithPayment (Some \<lparr>privateKey = ''k'', rpcUrl = None\<rparr>)
      (\<lambda>n. Inr \<lparr>status = 402, body = ''{}''\<rparr>) (\<lambda>res. None) =
     (Inl (Error (''Request failed: 402 - {}'')), 2)"
  using payment_retry_bound[of "\<lambda>n. \<lparr>status = 402, body = ''{}''\<rparr>" "\<lambda>res. None"
      "\<lparr>privateKey = ''k'', rpcUrl = None\<rparr>"]
  by simp

text \<open>
  The claim as stated does not ask the payment to succeed. When the payment throws (here the
  402 body is not JSON, so \<open>res.json()\<close> throws), only 1 request is made and the error is the
  payment's, not the response body.
\<close>

theorem payment_retry_counterexample:
  "fetchWithPayment (Some \<lparr>privateKey = ''k'', rpcUrl = None\<rparr>)
      (\<lambda>n. Inr \<lparr>status = 402, body = ''payment required''\<rparr>)
      (\<lambda>res. Some (Thrown ''SyntaxError: JSON Parse error'')) =
     (Inl (Thrown ''SyntaxError: JSON Parse error''), 1)"
  unfolding fetchWithPayment_def
  by (subst fetchLoop.simps) (simp add: response_ok_def maxRetries_def)

section \<open>Properties of the output schema validation\<close>

lemma keys_nonempty_unwrap: "keys_nonempty s \<Longrightarrow> keys_nonempty (unwrap s)"
  by (induction s rule: unwrap.induct) auto

lemma js_join_Cons: "ks \<noteq> [] \<Longrightarrow> js_join sep (k # ks) = k @ sep @ js_join sep ks"
  by (cases ks) auto

lemma array_at_Cons:
  "array_at rest p \<Longrightarrow> array_at (entry # rest) p"
  by (cases p) auto

lemma validate_sound:
  "validateNoArrays shape path = Inl e \<Longrightarrow> keys_nonempty (ZodObject shape) \<Longrightarrow>
     \<exists>p. p \<noteq> [] \<and> array_at shape p \<and>
         e = array_error (extend_path path (js_join ''.'' p)) (last p)"
proof (induction shape path arbitrary: e rule: validateNoArrays.induct)
  case (1 path)
  then show ?case by simp
next
  case (2 key fieldSchema rest path)
  let ?cp = "if path \<noteq> [] then path @ ''.'' @ key else key"
  note run = "2.prems"(1)
  have key: "key \<noteq> []" and knf: "keys_nonempty (unwrap fieldSchema)"
    and knr: "keys_nonempty (ZodObject rest)"
    using "2.prems"(2) keys_nonempty_unwrap by auto
  have cp: "?cp = extend_path path key" by (simp add: extend_path_def)
  have ih_obj: "\<exists>p. p \<noteq> [] \<and> array_at sh p \<and>
            e' = array_error (extend_path ?cp (js_join ''.'' p)) (last p)"
    if "unwrap fieldSchema = ZodObject sh" "validateNoArrays sh ?cp = Inl e'" for sh e'
  proof -
    have "keys_nonempty (ZodObject sh)" using knf that by simp
    then show ?thesis using "2.IH"(7)[OF refl refl that(1) that(2)] by simp
  qed
  have ih_rest: "\<exists>p. p \<noteq> [] \<and> array_at rest p \<and>
            e = array_error (extend_path path (js_join ''.'' p)) (last p)"
    if h: "validateNoArrays rest path = Inl e" "\<not> is_array (unwrap fieldSchema)"
       "\<And>sh. unwrap fieldSchema = ZodObject sh \<Longrightarrow> \<exists>u. validateNoArrays sh ?cp = Inr u"
  proof (cases "unwrap fieldSchema")
    case (ZodObject sh)
    then obtain u where "validateNoArrays sh ?cp = Inr u" using h(3) by blast
    then show ?thesis using "2.IH"(8)[OF refl refl ZodObject _ h(1) knr] by simp
  qed (use h "2.IH"(1-6,9)[OF refl refl _ h(1) knr] in simp_all)
  show ?case
  proof (cases "unwrap fieldSchema")
    case (ZodArray x)
    then have "e = array_error ?cp key" using run by simp
    then show ?thesis using ZodArray cp
      by (intro exI[of _ "[key]"]) simp
  next
    case (ZodObject sh)
    show ?thesis
    proof (cases "validateNoArrays sh ?cp")
      case (Inl e')
      then have ee: "e' = e" using run ZodObject by simp
      from ih_obj[OF ZodObject Inl]
      obtain p where p: "p \<noteq> []" "array_at sh p"
        "e' = array_error (extend_path ?cp (js_join ''.'' p)) (last p)"
        by blast
      have "extend_path ?cp (js_join ''.'' p) = extend_path path (js_join ''.'' (key # p))"
        using key p(1) by (simp add: extend_path_def js_join_Cons)
      then show ?thesis using p ee ZodObject
        by (intro exI[of _ "key # p"]) simp
    next
      case (Inr u)
      then have "validateNoArrays rest path = Inl e" using run ZodObject by simp
      from ih_rest[OF this] obtain p where "p \<noteq> []" "array_at rest p"
        "e = array_error (extend_path path (js_join ''.'' p)) (last p)"
        using ZodObject Inr by auto
      then show ?thesis using array_at_Cons by blast
    qed
  next
    case ZodString
    then have "validateNoArrays rest path = Inl e" using run by simp
    from ih_rest[OF this] obtain p where "p \<noteq> []" "array_at rest p"
        "e = array_error (extend_path path (js_join ''.'' p)) (last p)"
      using ZodString by auto
    then show ?thesis using array_at_Cons by blast
  next
    case ZodNumber
    then have "validateNoArrays rest path = Inl e" using run by simp
    from ih_rest[OF this] obtain p where "p \<noteq> []" "array_at rest p"
        "e = array_error (extend_path path (js_join ''.'' p)) (last p)"
      using ZodNumber by auto
    then show ?thesis using array_at_Cons by blast
  next
    case ZodBoolean
    then have "validateNoArrays rest path = Inl e" using run by simp
    from ih_rest[OF this] obtain p where "p \<noteq> []" "array_at rest p"
        "e = array_error (extend_path path (js_join ''.'' p)) (last p)"
      using ZodBoolean by auto
    then show ?thesis using array_at_Cons by blast
  next
    case (ZodEnum x)
    then have "validateNoArrays rest path = Inl e" using run by simp
    from ih_rest[OF this] obtain p where "p \<noteq> []" "array_at rest p"
        "e = array_error (extend_path path (js_join ''.'' p)) (last p)"
      using ZodEnum by auto
    then show ?thesis using array_at_Cons by blast
  next
    case (ZodOptional x)
    then have "validateNoArrays rest path = Inl e" using run by simp
    from ih_rest[OF this] obtain p where "p \<noteq> []" "array_at rest p"
        "e = array_error (extend_path path (js_join ''.'' p)) (last p)"
      using ZodOptional by auto
    then show ?thesis using array_at_Cons by blast
  next
    case (ZodNullable x)
    then have "validateNoArrays rest path = Inl e" using run by simp
    from ih_rest[OF this] obtain p where "p \<noteq> []" "array_at rest p"
        "e = array_error (extend_path path (js_join ''.'' p)) (last p)"
      using ZodNullable by auto
    then show ?thesis using array_at_Cons by blast
  next
    case (ZodOther typeName inners)
    then have "validateNoArrays rest path = Inl e" using run by simp
    from ih_rest[OF this] obtain p where "p \<noteq> []" "array_at rest p"
        "e = array_error (extend_path path (js_join ''.'' p)) (last p)"
      using ZodOther by auto
    then show ?thesis using array_at_Cons by blast
  qed
qed


lemma validate_complete:
  "validateNoArrays shape path = Inr u \<Longrightarrow> \<not> array_at shape p"
proof (induction shape path arbitrary: p u rule: validateNoArrays.induct)
  case (1 path)
  then show ?case by (cases p) auto
next
  case (2 key fieldSchema rest path)
  let ?cp = "if path \<noteq> [] then path @ ''.'' @ key else key"
  note run = "2.prems"
  have not_arr: "\<not> is_array (unwrap fieldSchema)"
    using run by (cases "unwrap fieldSchema") auto
  have nested: "\<not> array_at (shape_of (unwrap fieldSchema)) ks" for ks
  proof (cases "unwrap fieldSchema")
    case (ZodObject sh)
    then obtain u' where "validateNoArrays sh ?cp = Inr u'"
      using run by (cases "validateNoArrays sh ?cp") auto
    from "2.IH"(7)[OF refl refl ZodObject this] show ?thesis using ZodObject by simp
  qed (cases ks; simp)+
  have rest: "validateNoArrays rest path = Inr u"
    using run by (cases "unwrap fieldSchema") (auto split: sum.splits)
  have "\<not> array_at rest p"
  proof (cases "unwrap fieldSchema")
    case (ZodObject sh)
    then obtain u' where "validateNoArrays sh ?cp = Inr u'"
      using run by (cases "validateNoArrays sh ?cp") auto
    from "2.IH"(8)[OF refl refl ZodObject this rest] show ?thesis .
  qed (use not_arr rest "2.IH"(1-6,9)[OF refl refl _ rest] in simp_all)
  then show ?case using not_arr nested by (cases p) auto
qed

text \<open>
  An array under a kind other than optional, nullable and object is not looked for: the
  schema \<open>z.object({tags: z.array(z.string()).default([])})\<close> is accepted.
\<close>

lemma array_under_other_kind_accepted:
  "new_Agent \<lparr>llm = ''gpt-4o'', inputFormat = [],
      outputFormat = [(''tags'', ZodOther ''ZodDefault'' [ZodArray ZodString])]\<rparr>
   = Inr (Agent \<lparr>llm = ''gpt-4o'', inputFormat = [],
      outputFormat = [(''tags'', ZodOther ''ZodDefault'' [ZodArray ZodString])]\<rparr>)"
  by (simp add: new_Agent_def)

lemma validate_rejects_array:
  "validateNoArrays shape path = Inl e \<Longrightarrow> \<exists>p. array_at shape p"
proof (induction shape path arbitrary: e rule: validateNoArrays.induct)
  case (1 path)
  then show ?case by simp
next
  case (2 key fieldSchema rest path)
  let ?cp = "if path \<noteq> [] then path @ ''.'' @ key else key"
  note run = "2.prems"
  have here: "array_at ((key, fieldSchema) # rest) [key]" if "is_array (unwrap fieldSchema)"
    using that by simp
  have below: "array_at ((key, fieldSchema) # rest) (key # p)"
    if "unwrap fieldSchema = ZodObject sh" "array_at sh p" for sh p
    using that by (cases p) auto
  show ?case
  proof (cases "is_array (unwrap fieldSchema)")
    case True
    then show ?thesis using here by blast
  next
    case False
    show ?thesis
    proof (cases "\<exists>sh e'. unwrap fieldSchema = ZodObject sh \<and> validateNoArrays sh ?cp = Inl e'")
      case True
      then obtain sh e' where sh: "unwrap fieldSchema = ZodObject sh"
        and f: "validateNoArrays sh ?cp = Inl e'"
        by blast
      from "2.IH"(7)[OF refl refl sh f] obtain p where "array_at sh p" by blast
      then show ?thesis using below[OF sh] by blast
    next
      case nested: False
      have rest: "validateNoArrays rest path = Inl e"
        using run False nested
        by (cases "unwrap fieldSchema") (auto split: sum.splits)
      have "\<exists>p. array_at rest p"
      proof (cases "unwrap fieldSchema")
        case (ZodObject sh)
        then obtain u where "validateNoArrays sh ?cp = Inr u"
          using nested by (cases "validateNoArrays sh ?cp") auto
        from "2.IH"(8)[OF refl refl ZodObject this rest] show ?thesis .
      qed (use False rest "2.IH"(1-6,9)[OF refl refl _ rest] in simp_all)
      then show ?thesis using array_at_Cons by blast
    qed
  qed
qed

text \<open>
  Constructing an agent fails if and only if its output schema has an array at some path, at
  any nesting depth, optional and nullable wrappers unwrapped. This holds for every schema.
\<close>

lemma new_Agent_fails_iff_array:
  "(\<exists>e. new_Agent config = Inl e) \<longleftrightarrow> (\<exists>p. array_at (outputFormat config) p)"
proof
  assume "\<exists>e. new_Agent config = Inl e"
  then obtain e where "validateNoArrays (outputFormat config) [] = Inl e"
    by (auto simp: new_Agent_def split: sum.splits)
  then show "\<exists>p. array_at (outputFormat config) p" by (rule validate_rejects_array)
next
  assume "\<exists>p. array_at (outputFormat config) p"
  then obtain p where "array_at (outputFormat config) p" by blast
  then show "\<exists>e. new_Agent config = Inl e"
    using validate_complete[of "outputFormat config" "[]" _ p]
    by (cases "validateNoArrays (outputFormat config) []") (auto simp: new_Agent_def)
qed

text \<open>
  When every field name of the schema is non-empty, the message of the error names the
  dotted path of an array field of the schema, and the field's own name.
\<close>

lemma new_Agent_error_path:
  assumes "keys_nonempty (ZodObject (outputFormat config))"
    and "new_Agent config = Inl e"
  shows "\<exists>p. p \<noteq> [] \<and> array_at (outputFormat config) p
             \<and> e = array_error (js_join ''.'' p) (last p)"
proof -
  have "validateNoArrays (outputFormat config) [] = Inl e"
    using assms(2) by (simp add: new_Agent_def split: sum.splits)
  from validate_sound[OF this assms(1)] show ?thesis by (simp add: extend_path_def)
qed

text \<open>
  Claim C6. Constructing an Agent raises an error if and only if its output schema contains
  an array at any nesting depth, and the error message names the exact dotted path to the
  offending field. The constructor does build that path: for
  \<open>z.object({analysis: z.object({steps: z.array(z.string()).optional()})})\<close> the message
  names \<open>analysis.steps\<close>. It extends the path with \<open>path ? `${path}.${key}` : key\<close>
  (line 982), which tests the parent path for truthiness, so below a field whose name is the
  empty string the parent path \<open>""\<close> is taken for the top level: for
  \<open>z.object({"": z.object({tags: z.array(z.string())})})\<close> the array is at the path
  \<open>.tags\<close>, the join of the names \<open>""\<close> and \<open>tags\<close>, and the message names \<open>tags\<close>, the
  path of a top-level field that the schema does not have.
\<close>

theorem array_path_empty_field_name:
  "new_Agent \<lparr>llm = ''gpt-4o'', inputFormat = [],
        outputFormat = [(''analysis'', ZodObject [(''steps'', ZodOptional (ZodArray ZodString))])]\<rparr>
     = Inl (Error (''Arrays are not supported in output schema. Found array at path: analysis.steps. Use individual fields like steps_1, steps_2 instead.''))
   \<and> js_join ''.'' [''analysis'', ''steps''] = ''analysis.steps''
   \<and> new_Agent \<lparr>llm = ''gpt-4o'', inputFormat = [],
        outputFormat = [([], ZodObject [(''tags'', ZodArray ZodString)])]\<rparr>
     = Inl (Error (''Arrays are not supported in output schema. Found array at path: tags. Use individual fields like tags_1, tags_2 instead.''))
   \<and> js_join ''.'' [[], ''tags''] = ''.tags''
   \<and> array_at [([], ZodObject [(''tags'', ZodArray ZodString)])] [[], ''tags'']
   \<and> \<not> array_at [([], ZodObject [(''tags'', ZodArray ZodString)])] [''tags'']"
  by (simp add: new_Agent_def array_error_def)

section \<open>Properties of the markup codec\<close>

lemma is_tag_char_facts:
  assumes "is_tag_char c"
  shows "c \<noteq> CHR ''<''" "c \<noteq> CHR ''>''" "c \<noteq> CHR ''/''" "\<not> js_whitespace c" "name_char c"
  using assms
  by (auto simp: is_tag_char_def is_letter_def is_digit_def js_whitespace_def name_char_def)

lemma is_letter_tag_char: "is_letter c \<Longrightarrow> is_tag_char c"
  by (simp add: is_tag_char_def)

lemma valid_key_chars:
  assumes "valid_key k"
  shows "CHR ''<'' \<notin> set k" "CHR ''>'' \<notin> set k" "\<forall>c \<in> set k. name_char c"
    "k \<noteq> []" "hd k \<noteq> CHR ''/''"
proof -
  have a: "\<forall>c \<in> set k. is_tag_char c" and ne: "k \<noteq> []" and l: "is_letter (hd k)"
    using assms by (auto simp: valid_key_def list_all_iff)
  show "CHR ''<'' \<notin> set k" using a is_tag_char_facts(1) by blast
  show "CHR ''>'' \<notin> set k" using a is_tag_char_facts(2) by blast
  show "\<forall>c \<in> set k. name_char c" using a is_tag_char_facts(5) by blast
  show "k \<noteq> []" by (rule ne)
  show "hd k \<noteq> CHR ''/''" using l is_letter_tag_char is_tag_char_facts(3) by blast
qed

lemma sanitize_valid_key: "valid_key k \<Longrightarrow> sanitizeTagName k = k"
proof -
  assume v: "valid_key k"
  then have "map (\<lambda>c. if is_tag_char c then c else CHR ''_'') k = k"
    by (intro map_idI) (auto simp: valid_key_def list_all_iff)
  then show ?thesis using v
    by (cases k) (auto simp: sanitizeTagName_def valid_key_def)
qed

lemma wrapTag_valid_key:
  "valid_key k \<Longrightarrow> wrapTag k content = ''<'' @ k @ ''>'' @ content @ ''</'' @ k @ ''>''"
  by (simp add: wrapTag_def sanitize_valid_key)

lemma skips_Nil: "skips pat []"
  by (simp add: skips_def option.map_id)

lemma skips_append: "skips pat a \<Longrightarrow> skips pat b \<Longrightarrow> skips pat (a @ b)"
  by (auto simp: skips_def option.map_comp comp_def case_prod_unfold intro!: option.map_cong)

lemma skips_char: "ch \<noteq> CHR ''<'' \<Longrightarrow> skips (CHR ''<'' # p) [ch]"
  by (simp add: skips_def)

lemma skips_text: "CHR ''<'' \<notin> set t \<Longrightarrow> skips (CHR ''<'' # p) t"
proof (induction t)
  case Nil
  then show ?case by (simp add: skips_Nil)
next
  case (Cons a t)
  then have "skips (CHR ''<'' # p) ([a] @ t)"
    by (intro skips_append skips_char) auto
  then show ?case by simp
qed

lemma skips_concat: "\<forall>x \<in> set xs. skips pat x \<Longrightarrow> skips pat (concat xs)"
proof (induction xs)
  case Nil
  then show ?case by (simp add: skips_Nil)
next
  case (Cons a xs)
  then have "skips pat a" "skips pat (concat xs)" by simp_all
  then show ?case using skips_append by simp
qed


lemma find_sub_first: "pat \<noteq> [] \<Longrightarrow> find_sub pat (pat @ r) = Some ([], r)"
proof (cases pat)
  case Nil
  assume "pat \<noteq> []"
  then show ?thesis using Nil by simp
next
  case (Cons a p)
  have "find_sub pat (a # (p @ r)) = Some ([], drop (length pat) (a # (p @ r)))"
    by (subst find_sub.simps(2)) (simp add: Cons)
  then show ?thesis by (simp add: Cons)
qed

lemma skips_find:
  "skips pat c \<Longrightarrow> pat \<noteq> [] \<Longrightarrow> find_sub pat (c @ pat @ r) = Some (c, r)"
  by (simp add: skips_def find_sub_first)

lemma skips_open_tag:
  assumes "valid_key x"
  shows "skips (''</'' @ k @ ''>'') (''<'' @ x @ ''>'')"
proof -
  obtain h t where x: "x = h # t" using valid_key_chars(4)[OF assms] by (cases x) auto
  have h: "h \<noteq> CHR ''/''" using valid_key_chars(5)[OF assms] x by simp
  have t: "CHR ''<'' \<notin> set (x @ ''>'')" using valid_key_chars(1)[OF assms] by simp
  have tail: "skips (''</'' @ k @ ''>'') (x @ ''>'')"
    using skips_text[OF t, of "''/'' @ k @ ''>''"] by simp
  show ?thesis
    unfolding skips_def
  proof
    fix u
    have "find_sub (''</'' @ k @ ''>'') ((''<'' @ x @ ''>'') @ u)
        = map_option (\<lambda>(a, b). (CHR ''<'' # a, b)) (find_sub (''</'' @ k @ ''>'') ((x @ ''>'') @ u))"
      using h x by simp
    also have "\<dots> = map_option (\<lambda>(a, b). (CHR ''<'' # a, b))
        (map_option (\<lambda>(a, b). ((x @ ''>'') @ a, b)) (find_sub (''</'' @ k @ ''>'') u))"
      using tail by (simp only: skips_def)
    also have "\<dots> = map_option (\<lambda>(a, b). ((''<'' @ x @ ''>'') @ a, b)) (find_sub (''</'' @ k @ ''>'') u)"
      by (simp add: option.map_comp comp_def case_prod_unfold)
    finally show "find_sub (''</'' @ k @ ''>'') ((''<'' @ x @ ''>'') @ u) =
        map_option (\<lambda>(a, b). ((''<'' @ x @ ''>'') @ a, b)) (find_sub (''</'' @ k @ ''>'') u)" .
  qed
qed

lemma key_prefix_eq:
  assumes "CHR ''>'' \<notin> set x" "CHR ''>'' \<notin> set k"
    and "take (length (k @ ''>'')) (x @ ''>'' @ u) = k @ ''>''"
  shows "x = k"
  using assms
proof (induction x arbitrary: k)
  case Nil
  then show ?case by (cases k) auto
next
  case (Cons a x)
  then show ?case by (cases k) auto
qed

lemma skips_close_tag:
  assumes "valid_key x" "valid_key k" "x \<noteq> k"
  shows "skips (''</'' @ k @ ''>'') (''</'' @ x @ ''>'')"
proof -
  have t: "CHR ''<'' \<notin> set (''/'' @ x @ ''>'')" using valid_key_chars(1)[OF assms(1)] by simp
  have tail: "skips (''</'' @ k @ ''>'') (''/'' @ x @ ''>'')"
    using skips_text[OF t, of "''/'' @ k @ ''>''"] by simp
  have ne: "take (length (k @ ''>'')) (x @ ''>'' @ u) \<noteq> k @ ''>''" for u
    using key_prefix_eq[OF valid_key_chars(2)[OF assms(1)] valid_key_chars(2)[OF assms(2)]] assms(3)
    by blast
  show ?thesis
    unfolding skips_def
  proof
    fix u
    have "find_sub (''</'' @ k @ ''>'') ((''</'' @ x @ ''>'') @ u)
        = map_option (\<lambda>(a, b). (CHR ''<'' # a, b)) (find_sub (''</'' @ k @ ''>'') ((''/'' @ x @ ''>'') @ u))"
      using ne[of u] by simp
    also have "\<dots> = map_option (\<lambda>(a, b). (CHR ''<'' # a, b))
        (map_option (\<lambda>(a, b). ((''/'' @ x @ ''>'') @ a, b)) (find_sub (''</'' @ k @ ''>'') u))"
      using tail by (simp only: skips_def)
    also have "\<dots> = map_option (\<lambda>(a, b). ((''</'' @ x @ ''>'') @ a, b)) (find_sub (''</'' @ k @ ''>'') u)"
      by (simp add: option.map_comp comp_def case_prod_unfold)
    finally show "find_sub (''</'' @ k @ ''>'') ((''</'' @ x @ ''>'') @ u) =
        map_option (\<lambda>(a, b). ((''</'' @ x @ ''>'') @ a, b)) (find_sub (''</'' @ k @ ''>'') u)" .
  qed
qed

lemma number_literal_chars:
  assumes "is_number_literal s"
  shows "s \<noteq> []" "is_digit (hd s)" "\<forall>c \<in> set s. is_digit c \<or> c = CHR ''.''"
proof -
  let ?ip = "takeWhile is_digit s" and ?r = "dropWhile is_digit s"
  have s: "s = ?ip @ ?r" by simp
  have ip: "?ip \<noteq> []" and r: "?r = [] \<or> (hd ?r = CHR ''.'' \<and> tl ?r \<noteq> [] \<and> list_all is_digit (tl ?r))"
    using assms by (auto simp: is_number_literal_def Let_def)
  show "s \<noteq> []" using ip by auto
  show "is_digit (hd s)" using ip by (cases s) (auto split: if_splits)
  have a: "\<forall>c \<in> set ?ip. is_digit c" by (meson set_takeWhileD)
  have b: "\<forall>c \<in> set ?r. is_digit c \<or> c = CHR ''.''"
  proof (cases "?r = []")
    case True
    then show ?thesis by (metis empty_iff empty_set)
  next
    case False
    then obtain h t where ht: "?r = h # t" by (cases ?r) auto
    then have "h = CHR ''.''" "list_all is_digit t" using r by auto
    then show ?thesis unfolding ht by (auto simp: list_all_iff)
  qed
  show "\<forall>c \<in> set s. is_digit c \<or> c = CHR ''.''"
  proof -
    have "set s = set ?ip \<union> set ?r" by (metis set_append takeWhile_dropWhile_id)
    then show ?thesis using a b by blast
  qed
qed

lemma digit_dot_facts:
  assumes "is_digit c \<or> c = CHR ''.''"
  shows "c \<noteq> CHR ''<''" "\<not> js_whitespace c"
  using assms by (auto simp: is_digit_def js_whitespace_def)

lemma js_trim_id:
  assumes "s = [] \<or> (\<not> js_whitespace (hd s) \<and> \<not> js_whitespace (last s))"
  shows "js_trim s = s"
proof (cases s)
  case Nil
  then show ?thesis by (simp add: js_trim_def)
next
  case (Cons a t)
  then have h: "\<not> js_whitespace (hd s)" and l: "\<not> js_whitespace (last s)" using assms by auto
  have 1: "dropWhile js_whitespace s = s" using h Cons by simp
  have "rev s \<noteq> []" "hd (rev s) = last s" using Cons by (simp_all add: hd_rev)
  then obtain b u where bu: "rev s = b # u" "b = last s" by (cases "rev s") auto
  have 2: "dropWhile js_whitespace (rev s) = rev s" unfolding bu(1) using l bu(2) by simp
  show ?thesis by (simp add: js_trim_def 1 2)
qed


lemma leaf_text:
  assumes "plain_tree v" "codec_safe v" "\<forall>ps. v \<noteq> JObj ps"
  shows "CHR ''<'' \<notin> set (js_String v)" and "js_trim (js_String v) = js_String v"
    and "coerce (js_String v) = v"
proof -
  consider (s) s where "v = JStr s" | (n) s where "v = JNum s" | (b) b where "v = JBool b"
    using assms(1,3) by (cases v) auto
  then have "CHR ''<'' \<notin> set (js_String v) \<and> js_trim (js_String v) = js_String v
      \<and> coerce (js_String v) = v"
  proof cases
    case s
    then show ?thesis using assms(2) by (simp add: coerce_def)
  next
    case n
    then have lit: "is_number_literal s" and num: "js_Number s = JNum s" using assms(2) by simp_all
    note ch = number_literal_chars[OF lit]
    have a: "CHR ''<'' \<notin> set s" using ch(3) digit_dot_facts(1) by blast
    have "\<not> js_whitespace (hd s)" using ch(2) digit_dot_facts(2) by blast
    moreover have "last s \<in> set s" using ch(1) by simp
    then have "\<not> js_whitespace (last s)" using ch(3) digit_dot_facts(2) by blast
    ultimately have b: "js_trim s = s" by (intro js_trim_id) simp
    have "hd s \<noteq> CHR ''t''" "hd s \<noteq> CHR ''f''" using ch(2) by (auto simp: is_digit_def)
    then have "s \<noteq> ''true''" "s \<noteq> ''false''" by auto
    then have c: "coerce s = JNum s" using lit num by (simp add: coerce_def)
    show ?thesis using a b c n by simp
  next
    case b
    then show ?thesis
      by (cases b) (simp_all add: coerce_def js_trim_def js_whitespace_def)
  qed
  then show "CHR ''<'' \<notin> set (js_String v)" and "js_trim (js_String v) = js_String v"
    and "coerce (js_String v) = v" by simp_all
qed

lemma inner_leaf: "\<forall>ps. v \<noteq> JObj ps \<Longrightarrow> inner v = js_String v"
  by (cases v) simp_all

lemma skips_inner:
  "plain_tree v \<Longrightarrow> codec_safe v \<Longrightarrow> valid_key k \<Longrightarrow> k \<notin> set (deep_keys v) \<Longrightarrow>
   skips (''</'' @ k @ ''>'') (inner v)"
proof (induction v)
  case (JObj ps)
  have "\<forall>e \<in> set (map (\<lambda>(x, w). ''<'' @ x @ ''>'' @ inner w @ ''</'' @ x @ ''>'') ps).
          skips (''</'' @ k @ ''>'') e"
  proof
    fix e assume "e \<in> set (map (\<lambda>(x, w). ''<'' @ x @ ''>'' @ inner w @ ''</'' @ x @ ''>'') ps)"
    then obtain x w where xw: "(x, w) \<in> set ps" and e: "e = ''<'' @ x @ ''>'' @ inner w @ ''</'' @ x @ ''>''"
      by auto
    have vx: "valid_key x" and pw: "plain_tree w" and cw: "codec_safe w"
      using JObj.prems(1,2) xw by (auto simp: list_all_iff)
    have "x \<in> set (deep_keys (JObj ps))" "set (deep_keys w) \<subseteq> set (deep_keys (JObj ps))"
      using xw by auto
    then have xk: "x \<noteq> k" and kw: "k \<notin> set (deep_keys w)" using JObj.prems(4) by auto
    have "w \<in> Basic_BNFs.snds (x, w)" by simp
    from JObj.IH[OF xw this pw cw JObj.prems(3) kw]
    have iw: "skips (''</'' @ k @ ''>'') (inner w)" .
    have "skips (''</'' @ k @ ''>'') ((''<'' @ x @ ''>'') @ inner w @ (''</'' @ x @ ''>''))"
      by (rule skips_append[OF skips_open_tag[OF vx]
            skips_append[OF iw skips_close_tag[OF vx JObj.prems(3) xk]]])
    then show "skips (''</'' @ k @ ''>'') e" using e by simp
  qed
  then show ?case using skips_concat by simp
next
  case (JStr s)
  then have "CHR ''<'' \<notin> set (inner (JStr s))" using leaf_text(1)[of "JStr s"] by simp
  then show ?case using skips_text[of _ "''/'' @ k @ ''>''"] by simp
next
  case (JNum s)
  then have "CHR ''<'' \<notin> set (inner (JNum s))" using leaf_text(1)[of "JNum s"] by simp
  then show ?case using skips_text[of _ "''/'' @ k @ ''>''"] by simp
next
  case (JBool b)
  then have "CHR ''<'' \<notin> set (inner (JBool b))" using leaf_text(1)[of "JBool b"] by simp
  then show ?case using skips_text[of _ "''/'' @ k @ ''>''"] by simp
qed simp_all

lemma dropWhile_to_gt:
  "CHR ''>'' \<notin> set k \<Longrightarrow> dropWhile (\<lambda>ch. ch \<noteq> CHR ''>'') (k @ CHR ''>'' # t) = CHR ''>'' # t"
  by (induction k) auto

lemma takeWhile_name:
  "\<forall>c \<in> set k. name_char c \<Longrightarrow> takeWhile name_char (k @ CHR ''>'' # t) = k"
  by (induction k) (auto simp: name_char_def)

lemma match_tag_entry:
  assumes "valid_key k" "skips (''</'' @ k @ ''>'') c"
  shows "match_tag (k @ ''>'' @ c @ ''</'' @ k @ ''>'' @ r) = Some (k, c, r)"
proof -
  let ?s = "k @ ''>'' @ c @ ''</'' @ k @ ''>'' @ r"
  have run: "takeWhile name_char ?s = k"
    using takeWhile_name[OF valid_key_chars(3)[OF assms(1)]] by simp
  have dr: "dropWhile (\<lambda>ch. ch \<noteq> CHR ''>'') ?s = CHR ''>'' # (c @ (''</'' @ k @ ''>'') @ r)"
    using dropWhile_to_gt[OF valid_key_chars(2)[OF assms(1)]] by simp
  obtain n where n: "length k = Suc n" using valid_key_chars(4)[OF assms(1)] by (cases k) auto
  have f: "find_sub (''</'' @ k @ ''>'') (c @ (''</'' @ k @ ''>'') @ r) = Some (c, r)"
    using skips_find[OF assms(2)] by simp
  have "try_names k (c @ (''</'' @ k @ ''>'') @ r) (Suc n) = Some (k, c, r)"
    using f n by simp
  then show ?thesis
    unfolding match_tag_def run dr using n by simp
qed

lemma scan_entries:
  "\<forall>(k, v) \<in> set ps. valid_key k \<and> skips (''</'' @ k @ ''>'') (inner v) \<Longrightarrow>
   scan_tags (inner (JObj ps)) = map (\<lambda>(k, v). (k, inner v)) ps"
proof (induction ps)
  case Nil
  then show ?case by simp
next
  case (Cons e ps)
  obtain k v where e: "e = (k, v)" by (cases e)
  have vk: "valid_key k" and sk: "skips (''</'' @ k @ ''>'') (inner v)"
    using Cons.prems e by auto
  have split: "inner (JObj (e # ps)) =
      CHR ''<'' # (k @ ''>'' @ inner v @ ''</'' @ k @ ''>'' @ inner (JObj ps))"
    using e by simp
  have m: "match_tag (k @ ''>'' @ inner v @ ''</'' @ k @ ''>'' @ inner (JObj ps))
      = Some (k, inner v, inner (JObj ps))"
    by (rule match_tag_entry[OF vk sk])
  have "scan_tags (inner (JObj (e # ps))) = (k, inner v) # scan_tags (inner (JObj ps))"
    unfolding split by (simp only: scan_tags.simps m if_True option.case prod.case simp_thms)
  then show ?case using Cons e by simp
qed

lemma js_set_fresh: "k \<notin> fst ` set acc \<Longrightarrow> js_set acc k v = acc @ [(k, v)]"
  by (induction acc) auto

lemma foldl_js_set:
  "distinct (map fst (acc @ xs)) \<Longrightarrow>
   foldl (\<lambda>result (tagName, v). js_set result tagName v) acc xs = acc @ xs"
proof (induction xs arbitrary: acc)
  case Nil
  then show ?case by simp
next
  case (Cons e xs)
  obtain k v where e: "e = (k, v)" by (cases e)
  have "k \<notin> fst ` set acc" using Cons.prems e by auto
  then have s: "js_set acc k v = acc @ [(k, v)]" by (rule js_set_fresh)
  have "distinct (map fst ((acc @ [(k, v)]) @ xs))" using Cons.prems e by simp
  from Cons.IH[OF this] show ?case using s e by simp
qed

lemma inner_obj_ends:
  assumes "ps \<noteq> []"
  shows "hd (inner (JObj ps)) = CHR ''<''" "last (inner (JObj ps)) = CHR ''>''"
    "inner (JObj ps) \<noteq> []" "CHR ''<'' \<in> set (inner (JObj ps))"
proof -
  obtain k v r where ps: "ps = (k, v) # r" using assms by (cases ps) auto
  show a: "hd (inner (JObj ps)) = CHR ''<''" by (simp add: ps)
  show c: "inner (JObj ps) \<noteq> []" by (simp add: ps)
  obtain r' k' v' where ps': "ps = r' @ [(k', v')]" using assms by (cases ps rule: rev_cases) auto
  show "last (inner (JObj ps)) = CHR ''>''" by (simp add: ps')
  show "CHR ''<'' \<in> set (inner (JObj ps))" by (simp add: ps)
qed

lemma js_trim_inner_obj: "ps \<noteq> [] \<Longrightarrow> js_trim (inner (JObj ps)) = inner (JObj ps)"
  using inner_obj_ends[of ps] by (intro js_trim_id) (simp add: js_whitespace_def)

lemma plain_not_nullish: "plain_tree v \<Longrightarrow> v \<noteq> JUndefined \<and> v \<noteq> JNull"
  by (cases v) auto

lemma objToXml_inner:
  "plain_tree v \<Longrightarrow> codec_safe v \<Longrightarrow> v = JObj ps \<Longrightarrow>
   objToXml v None = inner v \<and>
   (\<forall>k. valid_key k \<longrightarrow> objToXml v (Some k) = ''<'' @ k @ ''>'' @ inner v @ ''</'' @ k @ ''>'')"
proof (induction v arbitrary: ps)
  case (JObj qs)
  have flt: "filter (\<lambda>(k, v). v \<noteq> JUndefined \<and> v \<noteq> JNull) qs = qs"
    using JObj.prems(1) plain_not_nullish by (auto simp: list_all_iff intro!: filter_True)
  have ne: "qs \<noteq> []" using JObj.prems(2) by simp
  have ent: "(if typeof_object w then objToXml w (Some x)
              else ''<'' @ x @ ''>'' @ js_String w @ ''</'' @ x @ ''>'')
             = ''<'' @ x @ ''>'' @ inner w @ ''</'' @ x @ ''>''" if xw: "(x, w) \<in> set qs" for x w
  proof -
    have vx: "valid_key x" and pw: "plain_tree w" and cw: "codec_safe w"
      using JObj.prems(1,2) xw by (auto simp: list_all_iff)
    show ?thesis
    proof (cases w)
      case (JObj rs)
      have "w \<in> Basic_BNFs.snds (x, w)" by simp
      from JObj.IH[OF xw this pw cw JObj] vx show ?thesis using JObj by simp
    qed (use pw in simp_all)
  qed
  have content: "concat (map (\<lambda>(key, v).
                      if typeof_object v then objToXml v (Some key)
                      else ''<'' @ key @ ''>'' @ js_String v @ ''</'' @ key @ ''>'') qs)
        = inner (JObj qs)"
    using ent by (auto intro!: arg_cong[where f = concat] map_cong)
  have a: "objToXml (JObj qs) None = inner (JObj qs)"
    using flt ne content by (simp del: inner.simps)
  have b: "objToXml (JObj qs) (Some k) = ''<'' @ k @ ''>'' @ inner (JObj qs) @ ''</'' @ k @ ''>''"
    if "valid_key k" for k
  proof -
    have "k \<noteq> []" using that by (simp add: valid_key_def)
    then show ?thesis
      using flt ne content wrapTag_valid_key[OF that] by (simp del: inner.simps)
  qed
  show ?case using a b by blast
qed simp_all

lemma parse_inner:
  "plain_tree v \<Longrightarrow> codec_safe v \<Longrightarrow> v = JObj ps \<Longrightarrow> parseElement (inner v) = v"
proof (induction v arbitrary: ps)
  case (JObj qs)
  have ne: "qs \<noteq> []" using JObj.prems(2) by simp
  have dist: "distinct (map fst qs)" using JObj.prems(1) by simp
  have ents: "\<forall>(k, w) \<in> set qs. valid_key k \<and> skips (''</'' @ k @ ''>'') (inner w)"
  proof -
    have "valid_key k \<and> skips (''</'' @ k @ ''>'') (inner w)" if "(k, w) \<in> set qs" for k w
    proof -
      have "valid_key k" "plain_tree w" "codec_safe w" "k \<notin> set (deep_keys w)"
        using JObj.prems(1,2) that by (auto simp: list_all_iff)
      then show ?thesis using skips_inner by blast
    qed
    then show ?thesis by blast
  qed
  have scan: "scan_tags (inner (JObj qs)) = map (\<lambda>(k, w). (k, inner w)) qs"
    by (rule scan_entries[OF ents])
  have dec: "(if CHR ''<'' \<in> set (js_trim (inner w)) then parseElement (inner w)
              else coerce (js_trim (inner w))) = w" if kw: "(k, w) \<in> set qs" for k w
  proof -
    have pw: "plain_tree w" and cw: "codec_safe w"
      using JObj.prems(1,2) kw by (auto simp: list_all_iff)
    show ?thesis
    proof (cases "\<exists>rs. w = JObj rs")
      case True
      then obtain rs where rs: "w = JObj rs" by blast
      then have "rs \<noteq> []" using cw by simp
      then have t: "js_trim (inner w) = inner w" "CHR ''<'' \<in> set (inner w)"
        using js_trim_inner_obj inner_obj_ends(4) rs by simp_all
      have "w \<in> Basic_BNFs.snds (k, w)" by simp
      from JObj.IH[OF kw this pw cw rs] show ?thesis using t by simp
    next
      case False
      then have l: "\<forall>rs. w \<noteq> JObj rs" by simp
      show ?thesis
        using leaf_text[OF pw cw l] by (simp add: inner_leaf[OF l])
    qed
  qed
  have vals: "map (\<lambda>(tagName, tagContent).
                 (tagName, if CHR ''<'' \<in> set (js_trim tagContent) then parseElement tagContent
                           else coerce (js_trim tagContent)))
               (map (\<lambda>(k, w). (k, inner w)) qs) = qs"
  proof -
    have "(\<lambda>(tagName, tagContent).
              (tagName, if CHR ''<'' \<in> set (js_trim tagContent) then parseElement tagContent
                        else coerce (js_trim tagContent))) ((\<lambda>(k, w). (k, inner w)) e) = e"
      if "e \<in> set qs" for e
    proof -
      obtain k w where e: "e = (k, w)" by (cases e)
      then have "(k, w) \<in> set qs" using that by simp
      from dec[OF this] show ?thesis by (simp add: e)
    qed
    then show ?thesis by (simp add: map_idI)
  qed
  have m: "map (\<lambda>(k, w). (k, inner w)) qs \<noteq> []" using ne by simp
  have "parseElement (inner (JObj qs)) =
        JObj (foldl (\<lambda>result (tagName, v). js_set result tagName v) [] qs)"
    by (subst parseElement.simps)
       (simp only: js_trim_inner_obj[OF ne] inner_obj_ends(4)[OF ne] scan vals m
          Let_def not_True_eq_False if_False)
  also have "\<dots> = JObj qs" using foldl_js_set[of "[]" qs] dist by simp
  finally show ?case .
qed simp_all

text \<open>
  Claim C1 (as amended). For every tree whose internal nodes are plain objects with at least
  one entry, whose leaves are strings, numbers or booleans, without arrays, whose keys
  consist of \<open>[A-Za-z0-9_]\<close> and start with a letter, in which no key occurs again below
  itself, whose string leaves have no \<open><\<close> and no white space at either end and do not
  read as a boolean or a number, and whose number leaves print as plain decimals,
  \<open>xmlToObj(objToXml(tree))\<close> is the tree.
\<close>

theorem codec_roundtrip:
  assumes "plain_tree (JObj ps)" and "codec_safe (JObj ps)"
  shows "xmlToObj (objToXml (JObj ps) None) = JObj ps"
  using objToXml_inner[OF assms refl] parse_inner[OF assms refl]
  by (simp add: xmlToObj_def)

lemma is_number_literal_12: "is_number_literal ''12.5''"
  by (simp add: is_number_literal_def is_digit_def)

theorem codec_roundtrip_witness:
  "plain_tree (JObj [(''answer'', JStr ''Paris is the capital''),
                     (''meta'', JObj [(''ok'', JBool True), (''score'', JNum ''12.5'')])])
   \<and> codec_safe (JObj [(''answer'', JStr ''Paris is the capital''),
                     (''meta'', JObj [(''ok'', JBool True), (''score'', JNum ''12.5'')])])
   \<and> xmlToObj (objToXml (JObj [(''answer'', JStr ''Paris is the capital''),
                     (''meta'', JObj [(''ok'', JBool True), (''score'', JNum ''12.5'')])]) None)
       = JObj [(''answer'', JStr ''Paris is the capital''),
                     (''meta'', JObj [(''ok'', JBool True), (''score'', JNum ''12.5'')])]"
proof -
  let ?t = "JObj [(''answer'', JStr ''Paris is the capital''),
                     (''meta'', JObj [(''ok'', JBool True), (''score'', JNum ''12.5'')])]"
  have p: "plain_tree ?t" by code_simp
  have c: "codec_safe ?t" by code_simp
  show ?thesis using p c codec_roundtrip[OF p c] by simp
qed

text \<open>
  The claim as stated, for every tree of strings, numbers, booleans and nested objects with
  valid keys, fails: the decoder reads the string \<open>true\<close> as a boolean, trims a string,
  leaves a negative number a string, reads an empty object as the empty string, and closes
  a tag at the first closing tag of its name, so a key nested below itself is cut short.
\<close>

theorem codec_roundtrip_counterexample:
  "plain_tree (JObj [(''a'', JStr ''true'')])
   \<and> xmlToObj (objToXml (JObj [(''a'', JStr ''true'')]) None) = JObj [(''a'', JBool True)]
   \<and> plain_tree (JObj [(''a'', JObj [(''a'', JStr ''x'')])])
   \<and> xmlToObj (objToXml (JObj [(''a'', JObj [(''a'', JStr ''x'')])]) None)
       = JObj [(''a'', JStr ''<a>x'')]
   \<and> xmlToObj (objToXml (JObj [(''a'', JStr '' x '')]) None) = JObj [(''a'', JStr ''x'')]
   \<and> xmlToObj (objToXml (JObj [(''a'', JNum ''-5'')]) None) = JObj [(''a'', JStr ''-5'')]
   \<and> xmlToObj (objToXml (JObj [(''a'', JObj [])]) None) = JObj [(''a'', JStr [])]"
  by code_simp

section \<open>Properties of server and tool selection\<close>

lemma set_js_trim: "set (js_trim s) \<subseteq> set s"
proof
  fix x assume "x \<in> set (js_trim s)"
  then have "x \<in> set (dropWhile js_whitespace (rev (dropWhile js_whitespace s)))"
    by (simp add: js_trim_def)
  then have "x \<in> set (rev (dropWhile js_whitespace s))" by (rule set_dropWhileD)
  then have "x \<in> set (dropWhile js_whitespace s)" by simp
  then show "x \<in> set s" by (rule set_dropWhileD)
qed

lemma xmlToObj_no_markup: "CHR ''<'' \<notin> set s \<Longrightarrow> xmlToObj s = JStr (js_trim s)"
proof -
  assume "CHR ''<'' \<notin> set s"
  then have "CHR ''<'' \<notin> set (js_trim s)" using set_js_trim by blast
  then show ?thesis
    unfolding xmlToObj_def by (subst parseElement.simps) simp
qed

text \<open>
  \<open>xmlToObj\<close> returns a string or an object, whatever the text: reading a property of
  its result never throws, and the \<open>catch\<close> branches of the selection functions are never
  taken.
\<close>

lemma xmlToObj_shape: "(\<exists>t. xmlToObj s = JStr t) \<or> (\<exists>ps. xmlToObj s = JObj ps)"
  by (simp add: xmlToObj_def parseElement.simps[of s] Let_def)

lemma js_get_xmlToObj: "\<exists>v. js_get (xmlToObj s) k = Inr v"
  using xmlToObj_shape[of s] by (auto simp: js_get_def)

lemma selectRelevantServers_unparsed:
  assumes "CHR ''<'' \<notin> set response" "response \<noteq> []"
  shows "selectRelevantServers (\<lambda>messages. Inr response) (Some declared) input = Inr []"
  using assms
  by (simp add: selectRelevantServers_def xmlToObj_no_markup js_get_def js_get_opt_def
      names_select_def Let_def)

lemma selectRelevantTools_unparsed:
  assumes "CHR ''<'' \<notin> set response" "response \<noteq> []"
  shows "selectRelevantTools (\<lambda>messages. Inr response) input tools server = Inr []"
  using assms
  by (simp add: selectRelevantTools_def xmlToObj_no_markup js_get_def js_get_opt_def
      names_select_def Let_def)

text \<open>
  Claim C2, at a reply that is not markup: with two declared servers the selection returns
  no server, where the claim expects both. The empty reply does give the full list.
\<close>

theorem server_selection_malformed_reply:
  "selectRelevantServers (\<lambda>messages. Inr ''I am not sure which servers apply.'')
     (Some [\<lparr>server_name = ''weather'', server_description = ''Weather forecasts'',
              server_url = ''https://weather.example''\<rparr>,
            \<lparr>server_name = ''search'', server_description = ''Web search'',
              server_url = ''https://search.example''\<rparr>])
     (JObj [(''question'', JStr ''Will it rain tomorrow?'')]) = Inr []
   \<and> selectRelevantServers (\<lambda>messages. Inr [])
     (Some [\<lparr>server_name = ''weather'', server_description = ''Weather forecasts'',
              server_url = ''https://weather.example''\<rparr>,
            \<lparr>server_name = ''search'', server_description = ''Web search'',
              server_url = ''https://search.example''\<rparr>])
     (JObj [(''question'', JStr ''Will it rain tomorrow?'')])
     = Inr [\<lparr>server_name = ''weather'', server_description = ''Weather forecasts'',
              server_url = ''https://weather.example''\<rparr>,
            \<lparr>server_name = ''search'', server_description = ''Web search'',
              server_url = ''https://search.example''\<rparr>]"
proof -
  have a: "CHR ''<'' \<notin> set ''I am not sure which servers apply.''" by simp
  show ?thesis
    by (simp add: selectRelevantServers_unparsed[OF a]) (simp add: selectRelevantServers_def)
qed

text \<open>
  Claim C3, at a reply that is not markup: with two discovered tools the selection returns
  no tool, where the claim expects the first. The empty reply does give the first tool.
\<close>

theorem tool_selection_malformed_reply:
  "selectRelevantTools (\<lambda>messages. Inr ''I am not sure which tools apply.'')
     (JObj [(''question'', JStr ''Will it rain tomorrow?'')])
     [\<lparr>tool_name = ''forecast'', tool_description = ''Forecast for a city'', inputSchema = JObj []\<rparr>,
      \<lparr>tool_name = ''history'', tool_description = ''Past weather'', inputSchema = JObj []\<rparr>]
     \<lparr>server_name = ''weather'', server_description = ''Weather forecasts'',
       server_url = ''https://weather.example''\<rparr> = Inr []
   \<and> selectRelevantTools (\<lambda>messages. Inr [])
     (JObj [(''question'', JStr ''Will it rain tomorrow?'')])
     [\<lparr>tool_name = ''forecast'', tool_description = ''Forecast for a city'', inputSchema = JObj []\<rparr>,
      \<lparr>tool_name = ''history'', tool_description = ''Past weather'', inputSchema = JObj []\<rparr>]
     \<lparr>server_name = ''weather'', server_description = ''Weather forecasts'',
       server_url = ''https://weather.example''\<rparr>
     = Inr [\<lparr>tool_name = ''forecast'', tool_description = ''Forecast for a city'',
             inputSchema = JObj []\<rparr>]"
proof -
  have a: "CHR ''<'' \<notin> set ''I am not sure which tools apply.''" by simp
  show ?thesis
    by (simp add: selectRelevantTools_unparsed[OF a]) (simp add: selectRelevantTools_def)
qed

section \<open>Properties of the response prompt\<close>

lemma is_json_stringify: "is_json v \<Longrightarrow> \<exists>t. JSON_stringify v = Some t"
  by (cases v) simp_all

lemma js_join_hd: "x \<noteq> [] \<Longrightarrow> js_join sep (x # xs) \<noteq> [] \<and> hd (js_join sep (x # xs)) = hd x"
  by (cases xs) auto

lemma stringify_braces:
  assumes "is_json v"
  shows "JSON_stringify v = Some ''{}'' \<longleftrightarrow> v = JObj []"
proof (cases v)
  case (JNum s)
  then have "s \<noteq> []" "hd s \<noteq> CHR ''{''" "hd s \<noteq> CHR ''n''" using assms by (auto simp: is_digit_def)
  then have "s \<noteq> ''{}''" "''null'' \<noteq> ''{}''" by auto
  then show ?thesis using JNum by simp
next
  case (JStr s)
  then show ?thesis by (simp add: json_quote_def)
next
  case (JObj ps)
  show ?thesis
  proof (cases ps)
    case Nil
    then show ?thesis using JObj by simp
  next
    case (Cons e r)
    obtain k w where e: "e = (k, w)" by (cases e)
    have "is_json w" using assms JObj Cons e by simp
    then obtain t where t: "JSON_stringify w = Some t" using is_json_stringify by blast
    let ?rest = "concat (map (\<lambda>(k, v). case JSON_stringify v of None \<Rightarrow> []
                                   | Some t \<Rightarrow> [json_quote k @ '':'' @ t]) r)"
    have "JSON_stringify v = Some (''{'' @ js_join '','' ((json_quote k @ '':'' @ t) # ?rest) @ ''}'')"
      using JObj Cons e t by simp
    moreover have "js_join '','' ((json_quote k @ '':'' @ t) # ?rest) \<noteq> []"
      using js_join_hd[of "json_quote k @ '':'' @ t"] by (simp add: json_quote_def)
    ultimately have "JSON_stringify v \<noteq> Some ''{}''"
      by (cases "js_join '','' ((json_quote k @ '':'' @ t) # ?rest)") auto
    then show ?thesis using JObj Cons by simp
  qed
qed (use assms in simp_all)

lemma hasToolResults_iff:
  assumes "\<forall>(k, v) \<in> set toolResults. v = JUndefined \<or> is_json v"
  shows "hasToolResults toolResults \<longleftrightarrow>
         (\<exists>(k, v) \<in> set toolResults. v \<noteq> JNull \<and> v \<noteq> JUndefined \<and> v \<noteq> JStr [] \<and> v \<noteq> JObj [])"
proof -
  have "(v \<noteq> JNull \<and> v \<noteq> JUndefined \<and> v \<noteq> JStr [] \<and> JSON_stringify v \<noteq> Some ''{}'')
        = (v \<noteq> JNull \<and> v \<noteq> JUndefined \<and> v \<noteq> JStr [] \<and> v \<noteq> JObj [])"
    if "(k, v) \<in> set toolResults" for k v
  proof (cases "v = JUndefined")
    case True
    then show ?thesis by simp
  next
    case False
    then have "is_json v" using assms that by auto
    then show ?thesis using stringify_braces by simp
  qed
  then show ?thesis
    unfolding hasToolResults_def list_ex_iff by (cases toolResults) auto
qed

text \<open>
  Claim C8 (as amended). For tool results that are JSON values (or \<open>undefined\<close>): the prompt
  object has no \<open>context\<close> entry exactly when every result is \<open>null\<close>, \<open>undefined\<close>, the
  empty string or the empty object; otherwise the entry is the whole bag of results under
  \<open>tool_results\<close>. The entry is absent, not present and empty: the user message is then
  the markup of the input, the output format and the task alone.
\<close>

theorem tool_results_gating:
  assumes "\<forall>(k, v) \<in> set toolResults. v = JUndefined \<or> is_json v"
  shows "(map_of (response_request input output_format task toolResults) ''context'' = None
            \<longleftrightarrow> (\<forall>(k, v) \<in> set toolResults.
                   v = JNull \<or> v = JUndefined \<or> v = JStr [] \<or> v = JObj []))
       \<and> (map_of (response_request input output_format task toolResults) ''context'' \<noteq> None
            \<longrightarrow> map_of (response_request input output_format task toolResults) ''context''
                 = Some (JObj [(''tool_results'', JObj toolResults)]))
       \<and> (map_of (response_request input output_format task toolResults) ''context'' = None
            \<longrightarrow> response_user_message input output_format task toolResults
                 = (''user'', ''<request>''
                      @ objToXml (JObj [(''input'', input), (''output_format'', output_format),
                                        (''task'', JStr task)]) None
                      @ ''</request>''))"
proof (cases "hasToolResults toolResults")
  case True
  then have "map_of (response_request input output_format task toolResults) ''context''
        = Some (JObj [(''tool_results'', JObj toolResults)])"
    by (simp add: response_request_def)
  then show ?thesis using True hasToolResults_iff[OF assms] by auto
next
  case False
  then have a: "map_of (response_request input output_format task toolResults) ''context'' = None"
    by (simp add: response_request_def)
  have b: "response_user_message input output_format task toolResults
                 = (''user'', ''<request>''
                      @ objToXml (JObj [(''input'', input), (''output_format'', output_format),
                                        (''task'', JStr task)]) None
                      @ ''</request>'')"
    using False by (simp add: response_user_message_def response_request_def)
  show ?thesis using a b False hasToolResults_iff[OF assms] by auto
qed

theorem tool_results_gating_witness:
  "is_json (JObj []) \<and> is_json (JStr [])
   \<and> map_of (response_request (JObj [(''question'', JStr ''Will it rain?'')])
               (JObj [(''answer'', JStr [])]) ''Generate a response''
               [(''weather.forecast'', JObj []), (''search.query'', JStr [])]) ''context'' = None"
  using tool_results_gating[of "[(''weather.forecast'', JObj []), (''search.query'', JStr [])]"
      "JObj [(''question'', JStr ''Will it rain?'')]" "JObj [(''answer'', JStr [])]"
      "''Generate a response''"]
  by simp

text \<open>
  The claim as stated, for all falsy or empty results, fails: \<open>false\<close> is falsy and the
  empty array is empty, and for both the block is included.
\<close>

theorem tool_results_gating_counterexample:
  "\<not> js_truthy (JBool False)
   \<and> map_of (response_request (JObj [(''n'', JNum ''7'')]) (JObj [(''answer'', JStr [])])
               ''Generate a response'' [(''calc.is_even'', JBool False)]) ''context''
       = Some (JObj [(''tool_results'', JObj [(''calc.is_even'', JBool False)])])
   \<and> map_of (response_request (JObj [(''n'', JNum ''7'')]) (JObj [(''answer'', JStr [])])
               ''Generate a response'' [(''search.query'', JArr [])]) ''context''
       = Some (JObj [(''tool_results'', JObj [(''search.query'', JArr [])])])"
  by (simp add: response_request_def hasToolResults_def)

section \<open>Properties of the run\<close>

lemma resolve_frame:
  "resolveMCPInputFields policy env shape h b = (h', r) \<Longrightarrow>
   length h' = length h \<and> (\<forall>x. x \<noteq> b \<longrightarrow> h' ! x = h ! x)"
proof (induction shape arbitrary: h)
  case Nil
  then show ?case by simp
next
  case (Cons entry rest)
  obtain key description where entry: "entry = (key, description)" by (cases entry)
  show ?case
  proof (cases "resolve_field policy env key description (JObj (h ! b))")
    case (Inl e)
    then show ?thesis using Cons.prems entry by simp
  next
    case (Inr sel)
    show ?thesis
    proof (cases sel)
      case None
      then have "resolveMCPInputFields policy env rest h b = (h', r)"
        using Cons.prems entry Inr by simp
      then show ?thesis by (rule Cons.IH)
    next
      case (Some result)
      let ?h1 = "h[b := js_set (h ! b) key result]"
      have "resolveMCPInputFields policy env rest ?h1 b = (h', r)"
        using Cons.prems entry Inr Some by simp
      from Cons.IH[OF this] show ?thesis by simp
    qed
  qed
qed

lemma run_body_frame: "take (length h) (fst (run_body policy env config h a)) = h"
proof (cases "measured policy (env_parse_input env (h ! a))")
  case (Inl e)
  then show ?thesis by (simp add: run_body_def)
next
  case (Inr validated)
  show ?thesis
  proof (cases validated)
    case None
    then show ?thesis using Inr by (simp add: run_body_def)
  next
    case (Some v)
    obtain h2 resolved where
      res: "resolveMCPInputFields policy env (inputFormat config) (h @ [v]) (length h) = (h2, resolved)"
      by (cases "resolveMCPInputFields policy env (inputFormat config) (h @ [v]) (length h)")
    from resolve_frame[OF res]
    have len: "length h2 = Suc (length h)" and same: "\<forall>x. x \<noteq> length h \<longrightarrow> h2 ! x = (h @ [v]) ! x"
      by simp_all
    have "take (length h) h2 = h"
    proof (rule nth_equalityI)
      show "length (take (length h) h2) = length h" using len by simp
    next
      fix i assume "i < length (take (length h) h2)"
      then have i: "i < length h" by simp
      then have "h2 ! i = (h @ [v]) ! i" using same by simp
      then show "take (length h) h2 ! i = h ! i" using i by (simp add: nth_append)
    qed
    moreover have "fst (run_body policy env config h a) = h2"
      using Inr Some res
      by (simp add: run_body_def Let_def split: sum.splits option.splits)
    ultimately show ?thesis by simp
  qed
qed

text \<open>
  Claim C9. Whatever the environment, the wrapper's policies and the outcome, \<open>run\<close> leaves
  every object that existed before the call as it was, the caller's input object among
  them: input-field resolution assigns only to the object that input validation returned.
\<close>

theorem run_input_not_mutated:
  assumes "a < length h"
  shows "fst (run outer_policy inner_policy env agent h a) ! a = h ! a
       \<and> take (length h) (fst (run outer_policy inner_policy env agent h a)) = h"
proof -
  obtain config where agent: "agent = Agent config" by (cases agent)
  have f: "fst (run outer_policy inner_policy env agent h a)
           = fst (run_body inner_policy env config h a)"
    by (simp add: run_def agent split: prod.splits)
  have t: "take (length h) (fst (run outer_policy inner_policy env agent h a)) = h"
    unfolding f by (rule run_body_frame)
  have "take (length h) (fst (run outer_policy inner_policy env agent h a)) ! a
        = fst (run outer_policy inner_policy env agent h a) ! a"
    using assms by simp
  then show ?thesis using t by simp
qed

theorem run_input_not_mutated_witness:
  "(0::nat) < length [[(''city'', JStr ''unknown'')]]
   \<and> fst (run Rethrow Swallow demo_env
        (Agent \<lparr>llm = ''gpt-4o'', inputFormat = [(''city'', Some ''mcp: https://geo.example'')],
                outputFormat = [(''answer'', ZodString)]\<rparr>)
        [[(''city'', JStr ''unknown'')]] 0) ! 0 = [[(''city'', JStr ''unknown'')]] ! 0
   \<and> fst (run Rethrow Swallow demo_env
        (Agent \<lparr>llm = ''gpt-4o'', inputFormat = [(''city'', Some ''mcp: https://geo.example'')],
                outputFormat = [(''answer'', ZodString)]\<rparr>)
        [[(''city'', JStr ''unknown'')]] 0)
       = [[(''city'', JStr ''unknown'')], [(''city'', JStr ''Lisbon'')]]"
proof -
  have l: "(0::nat) < length [[(''city'', JStr ''unknown'')]]" by simp
  have r: "fst (run Rethrow Swallow demo_env
        (Agent \<lparr>llm = ''gpt-4o'', inputFormat = [(''city'', Some ''mcp: https://geo.example'')],
                outputFormat = [(''answer'', ZodString)]\<rparr>)
        [[(''city'', JStr ''unknown'')]] 0)
       = [[(''city'', JStr ''unknown'')], [(''city'', JStr ''Lisbon'')]]"
    by code_simp
  show ?thesis
    using l r run_input_not_mutated[OF l, of Rethrow Swallow demo_env
        "Agent \<lparr>llm = ''gpt-4o'', inputFormat = [(''city'', Some ''mcp: https://geo.example'')],
                outputFormat = [(''answer'', ZodString)]\<rparr>"]
    by blast
qed

text \<open>
  What \<open>run\<close> does with a failed validation, by the policy of the wrapper. The body of
  \<open>run\<close> is written for an inner \<open>measure\<close> that returns \<open>null\<close> when its callback
  throws (the test \<open>!validatedInput\<close> of line 155, \<open>validatedResponse || {}\<close> of line
  245) and for an outermost wrapper that lets the exception of line 156 through.
\<close>

lemma run_failed_validation_by_policy:
  "(env_parse_input env (h ! a) = Inl e \<longrightarrow>
      snd (run Rethrow Swallow env (Agent config) h a) = Inl input_validation_failed
    \<and> snd (run Rethrow Rethrow env (Agent config) h a) = Inl e
    \<and> snd (run Swallow p env (Agent config) h a) = Inr None)
   \<and> (env_parse_input env (h ! a) = Inr v
      \<and> resolveMCPInputFields p env (inputFormat config) (h @ [v]) (length h) = (h2, Inr ())
      \<and> env_stages env (JObj (h2 ! length h)) = Inr response
      \<and> env_parse_output env (if js_truthy response then response else JObj []) = Inl e'
      \<longrightarrow> snd (run outer_policy p env (Agent config) h a)
            = (case p of Swallow \<Rightarrow> Inr (Some (JObj []))
                       | Rethrow \<Rightarrow> measured outer_policy (Inl e')))"
proof (intro conjI impI)
  assume i: "env_parse_input env (h ! a) = Inl e"
  show "snd (run Rethrow Swallow env (Agent config) h a) = Inl input_validation_failed"
    using i by (simp add: run_def run_body_def)
  show "snd (run Rethrow Rethrow env (Agent config) h a) = Inl e"
    using i by (simp add: run_def run_body_def)
  show "snd (run Swallow p env (Agent config) h a) = Inr None"
    using i by (cases p) (simp_all add: run_def run_body_def)
next
  assume o: "env_parse_input env (h ! a) = Inr v
      \<and> resolveMCPInputFields p env (inputFormat config) (h @ [v]) (length h) = (h2, Inr ())
      \<and> env_stages env (JObj (h2 ! length h)) = Inr response
      \<and> env_parse_output env (if js_truthy response then response else JObj []) = Inl e'"
  show "snd (run outer_policy p env (Agent config) h a)
            = (case p of Swallow \<Rightarrow> Inr (Some (JObj []))
                       | Rethrow \<Rightarrow> measured outer_policy (Inl e'))"
    using o by (cases p) (simp_all add: run_def run_body_def)
qed


end
